theory Spec2Isabelle
  imports Complex_Main
begin

section \<open>JavaScript numbers\<close>

text \<open>
  The program computes with JavaScript numbers. They are modelled over exact arithmetic:
  a number is a real, or one of the three non-finite values \<open>Infinity\<close>,
  \<open>-Infinity\<close> and \<open>NaN\<close>. Rounding, overflow to infinity and the sign of zero
  are outside the model (a zero divisor counts as \<open>+0\<close>, which is what the difference of
  two equal numbers and a square root give). Quantities that are finite whenever the inputs
  are (coordinates, timestamps, sums and products of them, matrix entries) are plain reals;
  the values of divisions and everything computed from them are \<open>jsnum\<close>. Rounding
  is modelled in one place, the move of the pixel points in \<open>deriveAffineTransform\<close>,
  which is smaller than the spacing of the numbers it is applied to.
\<close>

datatype jsnum = Fin real | PInf | NInf | NaN

fun isNaN :: "jsnum \<Rightarrow> bool" where
  "isNaN NaN = True"
| "isNaN _ = False"

fun isFinite :: "jsnum \<Rightarrow> bool" where
  "isFinite (Fin _) = True"
| "isFinite _ = False"

fun jneg :: "jsnum \<Rightarrow> jsnum" where
  "jneg (Fin a) = Fin (- a)"
| "jneg PInf = NInf"
| "jneg NInf = PInf"
| "jneg NaN = NaN"

fun jadd :: "jsnum \<Rightarrow> jsnum \<Rightarrow> jsnum" where
  "jadd (Fin a) (Fin b) = Fin (a + b)"
| "jadd NaN _ = NaN"
| "jadd _ NaN = NaN"
| "jadd PInf NInf = NaN"
| "jadd NInf PInf = NaN"
| "jadd PInf _ = PInf"
| "jadd _ PInf = PInf"
| "jadd NInf _ = NInf"
| "jadd _ NInf = NInf"

definition jsub :: "jsnum \<Rightarrow> jsnum \<Rightarrow> jsnum" where
  "jsub a b = jadd a (jneg b)"

text \<open>The sign of an infinity after multiplication or division by a finite operand.\<close>

definition signedInf :: "bool \<Rightarrow> jsnum" where
  "signedInf positive = (if positive then PInf else NInf)"

fun jmul :: "jsnum \<Rightarrow> jsnum \<Rightarrow> jsnum" where
  "jmul (Fin a) (Fin b) = Fin (a * b)"
| "jmul NaN _ = NaN"
| "jmul _ NaN = NaN"
| "jmul PInf (Fin b) = (if b = 0 then NaN else signedInf (0 < b))"
| "jmul NInf (Fin b) = (if b = 0 then NaN else signedInf (b < 0))"
| "jmul (Fin a) PInf = (if a = 0 then NaN else signedInf (0 < a))"
| "jmul (Fin a) NInf = (if a = 0 then NaN else signedInf (a < 0))"
| "jmul PInf PInf = PInf"
| "jmul NInf NInf = PInf"
| "jmul PInf NInf = NInf"
| "jmul NInf PInf = NInf"

fun jdiv :: "jsnum \<Rightarrow> jsnum \<Rightarrow> jsnum" where
  "jdiv (Fin a) (Fin b) =
     (if b \<noteq> 0 then Fin (a / b)
      else if a = 0 then NaN
      else signedInf (0 < a))"
| "jdiv NaN _ = NaN"
| "jdiv _ NaN = NaN"
| "jdiv (Fin a) PInf = Fin 0"
| "jdiv (Fin a) NInf = Fin 0"
| "jdiv PInf (Fin b) = signedInf (0 \<le> b)"
| "jdiv NInf (Fin b) = signedInf (b < 0)"
| "jdiv PInf PInf = NaN"
| "jdiv PInf NInf = NaN"
| "jdiv NInf PInf = NaN"
| "jdiv NInf NInf = NaN"

text \<open>\<open>a < b\<close> and \<open>a > b\<close>: every comparison with \<open>NaN\<close> is false.\<close>

fun jlt :: "jsnum \<Rightarrow> jsnum \<Rightarrow> bool" where
  "jlt (Fin a) (Fin b) = (a < b)"
| "jlt NaN _ = False"
| "jlt _ NaN = False"
| "jlt NInf NInf = False"
| "jlt NInf _ = True"
| "jlt PInf _ = False"
| "jlt (Fin a) PInf = True"
| "jlt (Fin a) NInf = False"

definition jgt :: "jsnum \<Rightarrow> jsnum \<Rightarrow> bool" where
  "jgt a b = jlt b a"

text \<open>\<open>Math.max\<close> and \<open>Math.min\<close> of two arguments: \<open>NaN\<close> if either is.\<close>

definition jmax :: "jsnum \<Rightarrow> jsnum \<Rightarrow> jsnum" where
  "jmax a b = (if isNaN a \<or> isNaN b then NaN else if jlt a b then b else a)"

definition jmin :: "jsnum \<Rightarrow> jsnum \<Rightarrow> jsnum" where
  "jmin a b = (if isNaN a \<or> isNaN b then NaN else if jlt b a then b else a)"

fun jfloor :: "jsnum \<Rightarrow> jsnum" where
  "jfloor (Fin a) = Fin (of_int \<lfloor>a\<rfloor>)"
| "jfloor v = v"

fun jceil :: "jsnum \<Rightarrow> jsnum" where
  "jceil (Fin a) = Fin (of_int \<lceil>a\<rceil>)"
| "jceil v = v"

text \<open>\<open>Math.round\<close> rounds half up: \<open>floor (a + 1/2)\<close>.\<close>

fun jround :: "jsnum \<Rightarrow> jsnum" where
  "jround (Fin a) = Fin (of_int \<lfloor>a + 1 / 2\<rfloor>)"
| "jround v = v"

fun jsqrt :: "jsnum \<Rightarrow> jsnum" where
  "jsqrt (Fin a) = (if a < 0 then NaN else Fin (sqrt a))"
| "jsqrt PInf = PInf"
| "jsqrt NInf = NaN"
| "jsqrt NaN = NaN"

definition jsquare :: "jsnum \<Rightarrow> jsnum" where
  "jsquare a = jmul a a"

text \<open>Completions: a call returns a value or throws.\<close>

datatype js_error = TypeError | RangeError

datatype 'a completion = Normal 'a | Throw js_error

section \<open>Geodesy (generate\_map.js, helpers)\<close>

datatype 'a Point = Point (x_of: 'a) (y_of: 'a)

datatype LatLon = LatLon (lat: real) (lon: real)

text \<open>
  \<open>Math.atan2 y x\<close> on finite arguments (signs of zero apart).
\<close>

definition atan2 :: "real \<Rightarrow> real \<Rightarrow> real" where
  "atan2 y x =
     (if 0 < x then arctan (y / x)
      else if x < 0 then (if 0 \<le> y then arctan (y / x) + pi else arctan (y / x) - pi)
      else if 0 < y then pi / 2
      else if y < 0 then - (pi / 2)
      else 0)"

text \<open>
  \<open>LatLon.prototype.distance\<close>. The haversine term \<open>a\<close> lies in \<open>[0, 1]\<close> for all
  real arguments (lemma \<open>haversine_range\<close> below), so neither \<open>Math.sqrt\<close> receives a
  negative number and the result is finite.
\<close>

definition haversine :: "LatLon \<Rightarrow> LatLon \<Rightarrow> real" where
  "haversine this coordinates =
     (let C = pi / 180;
          dlat = lat this - lat coordinates;
          dlon = lon this - lon coordinates
      in (sin ((C * dlat) / 2))\<^sup>2 +
         cos (C * lat this) * cos (C * lat coordinates) * (sin ((C * dlon) / 2))\<^sup>2)"

definition distance :: "LatLon \<Rightarrow> LatLon \<Rightarrow> real" where
  "distance this coordinates =
     (let a = haversine this coordinates
      in 12756274 * atan2 (sqrt a) (sqrt (1 - a)))"

section \<open>Speed series (lib/mapdump.js)\<close>

record TrackPoint =
  time :: real
  coordinates :: "real \<times> real"

definition toLatLon :: "TrackPoint \<Rightarrow> LatLon" where
  "toLatLon p = LatLon (fst (coordinates p)) (snd (coordinates p))"

text \<open>\<open>Array.prototype.slice start end\<close> for indices that are not negative.\<close>

definition slice :: "'a list \<Rightarrow> nat \<Rightarrow> nat \<Rightarrow> 'a list" where
  "slice xs start finish = take (finish - start) (drop start xs)"

text \<open>
  The loop \<open>for (j = 0; j < pts.length - 1; j++) distance += from.distance(to)\<close>,
  shared by \<open>extractSpeed\<close> and \<open>extractDistance\<close>.
\<close>

function distanceLoop :: "TrackPoint list \<Rightarrow> nat \<Rightarrow> real \<Rightarrow> real" where
  "distanceLoop pts j acc =
     (if int j < int (length pts) - 1
      then distanceLoop pts (j + 1)
             (acc + distance (toLatLon (pts ! j)) (toLatLon (pts ! (j + 1))))
      else acc)"
  by pat_completeness auto
termination
  by (relation "measure (\<lambda>(pts, j, acc). length pts - j)") auto

definition extractDistance :: "TrackPoint list \<Rightarrow> real" where
  "extractDistance trackPoints = distanceLoop trackPoints 0 0"

text \<open>
  One pass of the body of \<open>extractSpeed\<close>'s loop: the speed computed for index \<open>i\<close>
  before the \<open>NaN\<close> test. Inside the loop \<open>i < length trackPoints\<close>, so
  \<open>minIdx\<close> and \<open>maxIdx\<close> are valid indices.
\<close>

definition minIdx :: "nat \<Rightarrow> nat" where
  "minIdx i = nat (max (int i - 10) 0)"

definition maxIdx :: "TrackPoint list \<Rightarrow> nat \<Rightarrow> nat" where
  "maxIdx trackPoints i = nat (min (int (minIdx i) + 10) (int (length trackPoints) - 1))"

definition windowSpeed :: "TrackPoint list \<Rightarrow> nat \<Rightarrow> jsnum" where
  "windowSpeed trackPoints i =
     (let trackPointsPortion = slice trackPoints (minIdx i) (maxIdx trackPoints i);
          distance = distanceLoop trackPointsPortion 0 0
      in jmul (jdiv (Fin distance)
                 (Fin (time (trackPoints ! maxIdx trackPoints i) - time (trackPoints ! minIdx i))))
              (Fin 3600))"

function speedLoop :: "TrackPoint list \<Rightarrow> nat \<Rightarrow> jsnum \<Rightarrow> jsnum list \<Rightarrow> jsnum list" where
  "speedLoop trackPoints i prevSpeed speeds =
     (if i < length trackPoints
      then (let speed0 = windowSpeed trackPoints i;
                speed = (if isNaN speed0 then prevSpeed else speed0)
            in speedLoop trackPoints (i + 1) speed (speeds @ [speed]))
      else speeds)"
  by pat_completeness auto
termination
  by (relation "measure (\<lambda>(tps, i, prev, speeds). length tps - i)") auto

definition extractSpeed :: "TrackPoint list \<Rightarrow> jsnum list" where
  "extractSpeed trackPoints = speedLoop trackPoints 0 (Fin 1) []"

text \<open>Properties of a track that the statements below use.\<close>

definition increasingTimes :: "TrackPoint list \<Rightarrow> bool" where
  "increasingTimes trackPoints = sorted_wrt (\<lambda>p q. time p < time q) trackPoints"

definition stationary :: "TrackPoint list \<Rightarrow> bool" where
  "stationary trackPoints =
     list_all (\<lambda>p. coordinates p = coordinates (hd trackPoints)) trackPoints"

fun finiteNonneg :: "jsnum \<Rightarrow> bool" where
  "finiteNonneg (Fin r) = (0 \<le> r)"
| "finiteNonneg _ = False"

text \<open>
  The speed of index \<open>i\<close> as the specification words it: the distances between
  consecutive points of the window from \<open>minIdx\<close> to \<open>maxIdx\<close>, both included,
  over the time elapsed between the window's last and first point, in km/h. It is compared
  with \<open>windowSpeed\<close>, which follows the code.
\<close>

definition claimedWindowSpeed :: "TrackPoint list \<Rightarrow> nat \<Rightarrow> jsnum" where
  "claimedWindowSpeed trackPoints i =
     (let window = slice trackPoints (minIdx i) (maxIdx trackPoints i + 1)
      in jmul (jdiv (Fin (distanceLoop window 0 0))
                 (Fin (time (last window) - time (hd window))))
              (Fin 3600))"


section \<open>Tile resolution (generate\_map.js, SpheroidProjection)\<close>

definition rad :: real where
  "rad = 6378137"

definition originShift :: real where
  "originShift = pi * rad"

definition resolution :: "nat \<Rightarrow> real" where
  "resolution zoom = (2 * originShift) / (256 * 2 ^ zoom)"

text \<open>
  \<open>zoomForPixelSize\<close>: the loop over \<open>i = 0 .. 29\<close>; falling out of the loop returns
  \<open>undefined\<close> (\<open>None\<close>).
\<close>

function zoomLoop :: "real \<Rightarrow> nat \<Rightarrow> int option" where
  "zoomLoop pixelSize i =
     (if i < 30
      then (if pixelSize > resolution i then Some (max (int i - 1) 0)
            else zoomLoop pixelSize (i + 1))
      else None)"
  by pat_completeness auto
termination
  by (relation "measure (\<lambda>(pixelSize, i). 30 - i)") auto

definition zoomForPixelSize :: "real \<Rightarrow> int option" where
  "zoomForPixelSize pixelSize = zoomLoop pixelSize 0"

section \<open>Palette lookup (lib/mapdump.js)\<close>

text \<open>
  The palette is the \<open>Uint8ClampedArray\<close> of a 1 x 256 canvas: a list of bytes. Reading a
  typed array at a number that is not one of its indices gives \<open>undefined\<close> (\<open>None\<close>).
\<close>

definition typedArrayGet :: "nat list \<Rightarrow> jsnum \<Rightarrow> nat option" where
  "typedArrayGet a idx =
     (case idx of
        Fin r \<Rightarrow> (if of_int \<lfloor>r\<rfloor> = r \<and> 0 \<le> r \<and> r < real (length a)
                  then Some (a ! nat \<lfloor>r\<rfloor>) else None)
      | _ \<Rightarrow> None)"

definition paletteIndex :: "nat list \<Rightarrow> jsnum \<Rightarrow> jsnum" where
  "paletteIndex palette valueRelative =
     jmin (jmul (jfloor (jmul valueRelative (Fin 256))) (Fin 4))
          (Fin (real (length palette) - 4))"

definition getRGBForPercent :: "nat list \<Rightarrow> jsnum \<Rightarrow> nat option list" where
  "getRGBForPercent palette valueRelative =
     (let paletteIndex = paletteIndex palette valueRelative
      in [typedArrayGet palette paletteIndex,
          typedArrayGet palette (jadd paletteIndex (Fin 1)),
          typedArrayGet palette (jadd paletteIndex (Fin 2))])"

text \<open>
  \<open>minSpeed\<close> and \<open>maxSpeed\<close> are \<open>null\<close> (\<open>None\<close>) for an empty speed series; in
  arithmetic \<open>null\<close> counts as 0.
\<close>

fun toNumber :: "jsnum option \<Rightarrow> jsnum" where
  "toNumber None = Fin 0"
| "toNumber (Some v) = v"

definition normalizedValue :: "jsnum option \<Rightarrow> jsnum option \<Rightarrow> jsnum \<Rightarrow> jsnum" where
  "normalizedValue minSpeed maxSpeed v =
     jmin (jmax (jdiv (jsub v (toNumber minSpeed))
                      (jsub (toNumber maxSpeed) (toNumber minSpeed)))
                (Fin 0))
          (Fin 0.999)"

definition valueRelative :: "jsnum option \<Rightarrow> jsnum option \<Rightarrow> jsnum \<Rightarrow> jsnum" where
  "valueRelative minSpeed maxSpeed v =
     (let valueRelative = normalizedValue minSpeed maxSpeed v
      in if isNaN valueRelative then Fin 0 else valueRelative)"

definition getRGBForValue :: "nat list \<Rightarrow> jsnum option \<Rightarrow> jsnum option \<Rightarrow> jsnum \<Rightarrow> nat option list" where
  "getRGBForValue palette minSpeed maxSpeed v =
     getRGBForPercent palette (valueRelative minSpeed maxSpeed v)"

section \<open>Calibration (generate\_map.js, helpers)\<close>

text \<open>
  \<open>LatLonToMeters\<close>: spherical pseudo-Mercator. The model is the code's for latitudes
  strictly between -90 and 90 degrees, where the tangent is positive and its logarithm
  finite; outside that range JavaScript yields \<open>-Infinity\<close> or \<open>NaN\<close>.
\<close>

definition pi_180 :: real where
  "pi_180 = pi / 180"

definition validLat :: "LatLon \<Rightarrow> bool" where
  "validLat c = (- 90 < lat c \<and> lat c < 90)"

definition LatLonToMeters :: "LatLon \<Rightarrow> real Point" where
  "LatLonToMeters coords =
     Point (lon coords * rad * pi_180)
           (ln (tan (((90 + lat coords) * pi_180) / 2)) * rad)"

text \<open>
  A 3 x 3 matrix is an array of nine numbers in row order, a vector an array of three;
  they are tuples here. The loops of \<open>multmm\<close> are written out.
\<close>

type_synonym vec3 = "real \<times> real \<times> real"
type_synonym mat3 = "real \<times> real \<times> real \<times> real \<times> real \<times> real \<times> real \<times> real \<times> real"

fun adj :: "mat3 \<Rightarrow> mat3" where
  "adj (m0, m1, m2, m3, m4, m5, m6, m7, m8) =
     (m4 * m8 - m5 * m7, m2 * m7 - m1 * m8, m1 * m5 - m2 * m4,
      m5 * m6 - m3 * m8, m0 * m8 - m2 * m6, m2 * m3 - m0 * m5,
      m3 * m7 - m4 * m6, m1 * m6 - m0 * m7, m0 * m4 - m1 * m3)"

fun multmm :: "mat3 \<Rightarrow> mat3 \<Rightarrow> mat3" where
  "multmm (a0, a1, a2, a3, a4, a5, a6, a7, a8) (b0, b1, b2, b3, b4, b5, b6, b7, b8) =
     (0 + a0 * b0 + a1 * b3 + a2 * b6, 0 + a0 * b1 + a1 * b4 + a2 * b7, 0 + a0 * b2 + a1 * b5 + a2 * b8,
      0 + a3 * b0 + a4 * b3 + a5 * b6, 0 + a3 * b1 + a4 * b4 + a5 * b7, 0 + a3 * b2 + a4 * b5 + a5 * b8,
      0 + a6 * b0 + a7 * b3 + a8 * b6, 0 + a6 * b1 + a7 * b4 + a8 * b7, 0 + a6 * b2 + a7 * b5 + a8 * b8)"

fun multmv :: "mat3 \<Rightarrow> vec3 \<Rightarrow> vec3" where
  "multmv (m0, m1, m2, m3, m4, m5, m6, m7, m8) (v0, v1, v2) =
     (m0 * v0 + m1 * v1 + m2 * v2,
      m3 * v0 + m4 * v1 + m5 * v2,
      m6 * v0 + m7 * v1 + m8 * v2)"

definition basisToPoints ::
  "real \<Rightarrow> real \<Rightarrow> real \<Rightarrow> real \<Rightarrow> real \<Rightarrow> real \<Rightarrow> real \<Rightarrow> real \<Rightarrow> mat3" where
  "basisToPoints x1 y1 x2 y2 x3 y3 x4 y4 =
     (let m = (x1, x2, x3, y1, y2, y3, 1, 1, 1)
      in case multmv (adj m) (x4, y4, 1) of
           (v0, v1, v2) \<Rightarrow> multmm m (v0, 0, 0, 0, v1, 0, 0, 0, v2))"

definition general2DProjection ::
  "real \<Rightarrow> real \<Rightarrow> real \<Rightarrow> real \<Rightarrow> real \<Rightarrow> real \<Rightarrow> real \<Rightarrow> real \<Rightarrow>
   real \<Rightarrow> real \<Rightarrow> real \<Rightarrow> real \<Rightarrow> real \<Rightarrow> real \<Rightarrow> real \<Rightarrow> real \<Rightarrow> mat3" where
  "general2DProjection x1s y1s x1d y1d x2s y2s x2d y2d x3s y3s x3d y3d x4s y4s x4d y4d =
     (let s = basisToPoints x1s y1s x2s y2s x3s y3s x4s y4s;
          d = basisToPoints x1d y1d x2d y2d x3d y3d x4d y4d
      in multmm d (adj s))"

text \<open>\<open>project\<close>: the division by the homogeneous component is where a value can stop
  being finite.\<close>

definition project :: "mat3 \<Rightarrow> real \<Rightarrow> real \<Rightarrow> jsnum \<times> jsnum" where
  "project m x y =
     (case multmv m (x, y, 1) of
        (v0, v1, v2) \<Rightarrow> (jdiv (Fin v0) (Fin v2), jdiv (Fin v1) (Fin v2)))"

text \<open>
  \<open>cornerCalTransform\<close> has no \<open>throw\<close> and no test of its matrix: for all arguments it
  returns the closure over \<open>matrix3d\<close>.
\<close>

definition matrix3d :: "real \<Rightarrow> real \<Rightarrow> LatLon \<Rightarrow> LatLon \<Rightarrow> LatLon \<Rightarrow> LatLon \<Rightarrow> mat3" where
  "matrix3d width height top_left_coordinates top_right_coordinates
            bottom_right_coordinates bottom_left_coordinates =
     (let top_left_meters = LatLonToMeters top_left_coordinates;
          top_right_meters = LatLonToMeters top_right_coordinates;
          bottom_right_meters = LatLonToMeters bottom_right_coordinates;
          bottom_left_meters = LatLonToMeters bottom_left_coordinates
      in general2DProjection
           (x_of top_left_meters) (y_of top_left_meters) 0 0
           (x_of top_right_meters) (y_of top_right_meters) width 0
           (x_of bottom_right_meters) (y_of bottom_right_meters) width height
           (x_of bottom_left_meters) (y_of bottom_left_meters) 0 height)"

definition cornerCalTransform ::
  "real \<Rightarrow> real \<Rightarrow> LatLon \<Rightarrow> LatLon \<Rightarrow> LatLon \<Rightarrow> LatLon \<Rightarrow> (LatLon \<Rightarrow> jsnum Point)" where
  "cornerCalTransform width height top_left_coordinates top_right_coordinates
                      bottom_right_coordinates bottom_left_coordinates =
     (\<lambda>latLon.
        let meters = LatLonToMeters latLon;
            xy = project (matrix3d width height top_left_coordinates top_right_coordinates
                            bottom_right_coordinates bottom_left_coordinates)
                         (x_of meters) (y_of meters)
        in Point (fst xy) (snd xy))"

text \<open>
  Collinearity of three points, and a set of four points no three of which are collinear.
\<close>

definition collinear :: "real Point \<Rightarrow> real Point \<Rightarrow> real Point \<Rightarrow> bool" where
  "collinear p q r =
     ((x_of q - x_of p) * (y_of r - y_of p) - (y_of q - y_of p) * (x_of r - x_of p) = 0)"

definition nondegenerate4 :: "real Point \<Rightarrow> real Point \<Rightarrow> real Point \<Rightarrow> real Point \<Rightarrow> bool" where
  "nondegenerate4 p1 p2 p3 p4 =
     (\<not> collinear p1 p2 p3 \<and> \<not> collinear p4 p2 p3 \<and> \<not> collinear p1 p4 p3 \<and> \<not> collinear p1 p2 p4)"

section \<open>Affine calibration from three points (dashboard/map\_edit.js)\<close>

record CalPt =
  latLonMeters :: "real Point"
  xy :: "real Point"





text \<open>
  The determinant of the matrix with the columns \<open>(x1, y1, 1)\<close>, \<open>(x2, y2, 1)\<close> and
  \<open>(x3, y3, 1)\<close>, in which the lemmas on \<open>basisToPoints\<close> are stated.
\<close>

definition det3pts :: "real \<Rightarrow> real \<Rightarrow> real \<Rightarrow> real \<Rightarrow> real \<Rightarrow> real \<Rightarrow> real" where
  "det3pts x1 y1 x2 y2 x3 y3 = (x2 - x1) * (y3 - y1) - (y2 - y1) * (x3 - x1)"


section \<open>Rendering (lib/mapdump.js)\<close>

text \<open>
  An image is known by its size. The corners of the calibration are the four fields of
  \<open>cornersCoordinates\<close>.
\<close>

record Image =
  width :: nat
  height :: nat

record CornersCoordinates =
  top_left :: LatLon
  top_right :: LatLon
  bottom_right :: LatLon
  bottom_left :: LatLon

record Bounds =
  minX :: jsnum
  maxX :: jsnum
  minY :: jsnum
  maxY :: jsnum

definition imageTransform :: "Image \<Rightarrow> CornersCoordinates \<Rightarrow> (LatLon \<Rightarrow> jsnum Point)" where
  "imageTransform img cornersCoordinates =
     cornerCalTransform (real (width img)) (real (height img))
       (top_left cornersCoordinates) (top_right cornersCoordinates)
       (bottom_right cornersCoordinates) (bottom_left cornersCoordinates)"

text \<open>The loop of \<open>extractBounds\<close> over the track points, in their order.\<close>

fun boundsLoop :: "(LatLon \<Rightarrow> jsnum Point) \<Rightarrow> TrackPoint list \<Rightarrow> Bounds \<Rightarrow> Bounds" where
  "boundsLoop transform [] b = b"
| "boundsLoop transform (p # ps) b =
     (let pt = transform (toLatLon p)
      in boundsLoop transform ps
           \<lparr>minX = (if jlt (x_of pt) (minX b) then x_of pt else minX b),
            maxX = (if jgt (x_of pt) (maxX b) then x_of pt else maxX b),
            minY = (if jlt (y_of pt) (minY b) then y_of pt else minY b),
            maxY = (if jgt (y_of pt) (maxY b) then y_of pt else maxY b)\<rparr>)"

definition extractBounds :: "Image \<Rightarrow> CornersCoordinates \<Rightarrow> TrackPoint list \<Rightarrow> Bounds" where
  "extractBounds img cornersCoordinates trackPoints =
     (let transform = imageTransform img cornersCoordinates;
          b = boundsLoop transform trackPoints
                \<lparr>minX = Fin 0, maxX = Fin (real (width img)),
                 minY = Fin 0, maxY = Fin (real (height img))\<rparr>
      in \<lparr>minX = jfloor (minX b), maxX = jceil (maxX b),
          minY = jfloor (minY b), maxY = jceil (maxY b)\<rparr>)"

text \<open>
  The size of a canvas made by \<open>createCanvas\<close> is a whole number that is not negative.
  The code passes whole numbers between 0 and 32767 only; any other number counts as 0 here.
\<close>

fun canvasDim :: "jsnum \<Rightarrow> nat" where
  "canvasDim (Fin r) = nat \<lfloor>r\<rfloor>"
| "canvasDim _ = 0"

text \<open>
  \<open>scaleImage\<close>: both sides are multiplied by the ratio and rounded down. The products
  are exact here. The code rounds them to the number format before \<open>Math.floor\<close>, which
  gives one pixel less when the exact product is a whole number and the rounded product
  falls just below it: the 32979 rows of an image at the ratio \<open>32767 / 32979\<close> become
  32766 rows in the code and 32767 here. The properties below are stated on sizes that do
  not depend on this.
\<close>

definition scaleImage :: "Image \<Rightarrow> jsnum \<Rightarrow> Image" where
  "scaleImage img ratio =
     \<lparr>width = canvasDim (jfloor (jmul (Fin (real (width img))) ratio)),
      height = canvasDim (jfloor (jmul (Fin (real (height img))) ratio))\<rparr>"

definition MAX_SIZE :: jsnum where
  "MAX_SIZE = Fin 32767"

text \<open>
  \<open>minSpeed\<close> and \<open>maxSpeed\<close>: mean minus and plus the standard deviation of the speed
  series, \<open>null\<close> for an empty series.
\<close>

definition speedBounds :: "jsnum list \<Rightarrow> jsnum option \<times> jsnum option" where
  "speedBounds speeds =
     (if length speeds \<noteq> 0
      then (let sumSpeeds = foldl jadd (Fin 0) speeds;
                avgSpeed = jdiv sumSpeeds (Fin (real (length speeds)));
                sumVariance = foldl (\<lambda>a b. jadd a (jsquare (jsub b avgSpeed))) (Fin 0) speeds;
                standardDev = jsqrt (jdiv sumVariance (Fin (real (length speeds))))
            in (Some (jsub avgSpeed standardDev), Some (jadd avgSpeed standardDev)))
      else (None, None))"

text \<open>
  A stroked segment of the colored path: its end points on the canvas and the colors of
  its gradient.
\<close>

record Segment =
  fromX :: jsnum
  fromY :: jsnum
  toX :: jsnum
  toY :: jsnum
  startRGB :: "nat option list"
  endRGB :: "nat option list"

text \<open>
  The loop of \<open>drawColoredPath\<close> from index \<open>j\<close> on. \<open>distanceY\<close> is computed from the
  \<open>x\<close> coordinates, as in the code. \<open>speeds\<close> has the length of the track, so both of
  its indices are valid.
\<close>

function coloredPathLoop ::
  "(LatLon \<Rightarrow> jsnum Point) \<Rightarrow> Bounds \<Rightarrow> (jsnum \<Rightarrow> nat option list) \<Rightarrow> jsnum list \<Rightarrow>
   TrackPoint list \<Rightarrow> nat \<Rightarrow> jsnum Point \<Rightarrow> Segment list \<Rightarrow> Segment list" where
  "coloredPathLoop transform bounds getRGB speeds trackPoints j pointStart drawn =
     (if j < length trackPoints
      then (let pointEnd = transform (toLatLon (trackPoints ! j));
                distanceX = jsub (x_of pointEnd) (x_of pointStart);
                distanceY = jsub (x_of pointEnd) (x_of pointStart);
                d = jsqrt (jadd (jsquare distanceX) (jsquare distanceY))
            in if jlt d (Fin 1)
               then coloredPathLoop transform bounds getRGB speeds trackPoints (j + 1)
                      pointStart drawn
               else coloredPathLoop transform bounds getRGB speeds trackPoints (j + 1)
                      pointEnd
                      (drawn @
                       [\<lparr>fromX = jround (jsub (x_of pointStart) (minX bounds)),
                         fromY = jround (jsub (y_of pointStart) (minY bounds)),
                         toX = jround (jsub (x_of pointEnd) (minX bounds)),
                         toY = jround (jsub (y_of pointEnd) (minY bounds)),
                         startRGB = getRGB (speeds ! (j - 1)),
                         endRGB = getRGB (speeds ! j)\<rparr>]))
      else drawn)"
  by pat_completeness auto
termination
  by (relation "measure (\<lambda>(transform, bounds, getRGB, speeds, tps, j, pointStart, drawn).
        length tps - j)") auto

text \<open>
  \<open>drawColoredPath\<close>: the start point is read from \<open>trackPoints[0]\<close>, which throws a
  \<open>TypeError\<close> for an empty track.
\<close>

definition drawColoredPath ::
  "(LatLon \<Rightarrow> jsnum Point) \<Rightarrow> Bounds \<Rightarrow> (jsnum \<Rightarrow> nat option list) \<Rightarrow> jsnum list \<Rightarrow>
   TrackPoint list \<Rightarrow> Segment list completion" where
  "drawColoredPath transform bounds getRGB speeds trackPoints =
     (case trackPoints of
        [] \<Rightarrow> Throw TypeError
      | p0 # _ \<Rightarrow>
          Normal (coloredPathLoop transform bounds getRGB speeds trackPoints 1
                    (transform (toLatLon p0)) []))"

text \<open>
  The direction ticks: the indices \<open>j\<close> at which a tick is drawn and whether it is an
  emphasized one (\<open>count % 6 === 0\<close>). Their geometry is not part of the model.
\<close>

function tickLoop ::
  "TrackPoint list \<Rightarrow> nat \<Rightarrow> real \<Rightarrow> nat \<Rightarrow> (nat \<times> bool) list \<Rightarrow> (nat \<times> bool) list" where
  "tickLoop trackPoints j prevT count drawn =
     (if int j < int (length trackPoints) - 1
      then (if time (trackPoints ! j) \<ge> prevT + 10000
            then tickLoop trackPoints (j + 1) (time (trackPoints ! j)) (count + 1)
                   (drawn @ [(j, count mod 6 = 0)])
            else tickLoop trackPoints (j + 1) prevT count drawn)
      else drawn)"
  by pat_completeness auto
termination
  by (relation "measure (\<lambda>(tps, j, prevT, count, drawn). length tps - j)") auto

definition drawTicks :: "TrackPoint list \<Rightarrow> (nat \<times> bool) list" where
  "drawTicks trackPoints =
     (if length trackPoints \<noteq> 0 \<and> time (trackPoints ! 0) \<noteq> 0
      then tickLoop trackPoints 1 (time (trackPoints ! 0) - 20000) 0 []
      else [])"

text \<open>
  \<open>printTime\<close> sets the seconds of the epoch date to \<open>t / 1e3\<close> and reads the date
  back with \<open>toISOString\<close>. \<open>setSeconds\<close> drops the fraction of its argument, and
  stores an invalid date when the time value is more than 8.64e15 ms away from the epoch;
  \<open>toISOString\<close> throws a \<open>RangeError\<close> for an invalid date. The value here is the
  time value of the date, in milliseconds; the text that the code composes from the ISO
  form is not part of the model. The time zone of the process is taken to be UTC.
\<close>

definition toIntegerOrInfinity :: "real \<Rightarrow> int" where
  "toIntegerOrInfinity r = (if 0 \<le> r then \<lfloor>r\<rfloor> else \<lceil>r\<rceil>)"

definition validTimeValue :: "real \<Rightarrow> bool" where
  "validTimeValue t = (\<bar>t\<bar> \<le> 8640000000000000)"

definition printTime :: "real \<Rightarrow> int completion" where
  "printTime t =
     (let timeValue = toIntegerOrInfinity (t / 1000) * 1000
      in if validTimeValue (real_of_int timeValue) then Normal timeValue else Throw RangeError)"

text \<open>
  The header band: the three speeds of the legend (minimum, middle, maximum), the distance
  of the track in meters, its elapsed time and its start time, each absent when the code
  does not draw it. The formatting of the texts is not part of the model.
  \<open>toLocaleString\<close> returns the text \<open>Invalid Date\<close> for an invalid date; for a valid
  one it throws a \<open>RangeError\<close> when its \<open>timeZone\<close> option is not a time zone known
  to the runtime. \<open>timeZones\<close> is the set of the names that the runtime knows.
\<close>

record Header =
  legend :: "(jsnum \<times> jsnum \<times> jsnum) option"
  distanceShown :: "real option"
  elapsedShown :: "int option"
  startShown :: "real option"

definition drawHeader ::
  "string set \<Rightarrow> TrackPoint list \<Rightarrow> string \<Rightarrow> jsnum option \<Rightarrow> jsnum option \<Rightarrow> bool \<Rightarrow>
   Header completion" where
  "drawHeader timeZones trackPoints timezoneName minSpeed maxSpeed includeTrack =
     (let speedLegend =
            (if includeTrack \<and> length trackPoints \<noteq> 0 \<and> time (trackPoints ! 0) \<noteq> 0
             then Some (toNumber minSpeed,
                        jdiv (jadd (toNumber maxSpeed) (toNumber minSpeed)) (Fin 2),
                        toNumber maxSpeed)
             else None)
      in if includeTrack \<and> length trackPoints \<noteq> 0
         then (let dist = extractDistance trackPoints
               in case printTime (time (trackPoints ! (length trackPoints - 1))
                                  - time (trackPoints ! 0)) of
                    Throw e \<Rightarrow> Throw e
                  | Normal elapsed \<Rightarrow>
                      if validTimeValue (time (trackPoints ! 0)) \<and> timezoneName \<notin> timeZones
                      then Throw RangeError
                      else Normal \<lparr>legend = speedLegend, distanceShown = Some dist,
                                   elapsedShown = Some elapsed,
                                   startShown = Some (time (trackPoints ! 0))\<rparr>)
         else Normal \<lparr>legend = speedLegend, distanceShown = None, elapsedShown = None,
                      startShown = None\<rparr>)"

text \<open>
  The rendered image: its size, where the raster image is drawn on the white background,
  the segments of the colored path, the ticks and the header. The outline layer, stroke
  widths, opacities and pixels are not part of the model, and neither are failures of
  the canvas library.
\<close>

record Canvas =
  cwidth :: nat
  cheight :: nat
  imageAt :: "jsnum \<times> jsnum"
  coloredPath :: "Segment list"
  ticks :: "(nat \<times> bool) list"
  header :: "Header option"

text \<open>
  The body of \<open>drawTrackOnMap\<close> after the size test. \<open>palette\<close> stands for the bytes
  that the canvas library rasterizes from the three-stop gradient. The track layers are
  drawn first, the header after them.
\<close>

definition renderTrackOnMap ::
  "string set \<Rightarrow> nat list \<Rightarrow> Image \<Rightarrow> CornersCoordinates \<Rightarrow> TrackPoint list \<Rightarrow> Bounds \<Rightarrow>
   string \<Rightarrow> bool \<Rightarrow> bool \<Rightarrow> Canvas completion" where
  "renderTrackOnMap timeZones palette img cornersCoordinates trackPoints bounds
                    timezoneName includeHeader includeTrack =
     (let canvasWidth = canvasDim (jsub (maxX bounds) (minX bounds));
          canvasHeight = canvasDim (jsub (maxY bounds) (minY bounds));
          imageOffset = (jround (jneg (minX bounds)), jround (jneg (minY bounds)));
          speeds = extractSpeed trackPoints;
          minSpeed = fst (speedBounds speeds);
          maxSpeed = snd (speedBounds speeds);
          getRGB = getRGBForValue palette minSpeed maxSpeed;
          headerHeight = 70;
          finish = (\<lambda>path tks.
            if includeHeader
            then (case drawHeader timeZones trackPoints timezoneName minSpeed maxSpeed
                         includeTrack of
                    Throw e \<Rightarrow> Throw e
                  | Normal hdr \<Rightarrow>
                      Normal \<lparr>cwidth = canvasWidth, cheight = canvasHeight + headerHeight,
                              imageAt = imageOffset, coloredPath = path, ticks = tks,
                              header = Some hdr\<rparr>)
            else Normal \<lparr>cwidth = canvasWidth, cheight = canvasHeight,
                         imageAt = imageOffset, coloredPath = path, ticks = tks,
                         header = None\<rparr>)
      in if includeTrack
         then (case drawColoredPath (imageTransform img cornersCoordinates) bounds getRGB
                      speeds trackPoints of
                 Throw e \<Rightarrow> Throw e
               | Normal path \<Rightarrow> finish path (drawTicks trackPoints))
         else finish [] [])"

section \<open>Calibration strings and file names (dashboard/map\_edit.js)\<close>

text \<open>
  The two regular expressions of the code use literals, the digit class \<open>\d\<close>,
  sequence, alternative, \<open>?\<close>, \<open>+\<close> and counted repetition \<open>{n}\<close>. A string is
  a list of characters; the patterns name ASCII characters only.
\<close>

datatype rexp =
    Lit string
  | Digit
  | Seq rexp rexp
  | Alt rexp rexp
  | Opt rexp
  | Plus rexp
  | Rep nat rexp

definition isDigit :: "char \<Rightarrow> bool" where
  "isDigit c = (c \<in> set ''0123456789'')"

text \<open>All ways of cutting a string in two.\<close>

fun splits :: "'a list \<Rightarrow> ('a list \<times> 'a list) list" where
  "splits [] = [([], [])]"
| "splits (x # xs) = ([], x # xs) # map (\<lambda>(u, v). (x # u, v)) (splits xs)"

lemma splits_length:
  "(u, v) \<in> set (splits s) \<Longrightarrow> length v \<le> length s \<and> (u \<noteq> [] \<longrightarrow> length v < length s)"
  by (induction s arbitrary: u v) (fastforce)+

text \<open>The size of an expression, counting its repetitions.\<close>

fun rsize :: "rexp \<Rightarrow> nat" where
  "rsize (Lit w) = 1"
| "rsize Digit = 1"
| "rsize (Seq a b) = rsize a + rsize b + 1"
| "rsize (Alt a b) = rsize a + rsize b + 1"
| "rsize (Opt a) = rsize a + 1"
| "rsize (Plus a) = rsize a + 1"
| "rsize (Rep n a) = n + rsize a + 1"

text \<open>
  \<open>matches r s\<close>: the expression \<open>r\<close> matches the whole of \<open>s\<close>. A backtracking
  matcher finds a match exactly when there is one, so this is when the anchored pattern
  \<open>/^r$/\<close> matches.
\<close>

function matches :: "rexp \<Rightarrow> string \<Rightarrow> bool" where
  "matches (Lit w) s = (s = w)"
| "matches Digit s = (case s of [d] \<Rightarrow> isDigit d | _ \<Rightarrow> False)"
| "matches (Seq a b) s =
     list_ex (\<lambda>(u, v). if matches a u then matches b v else False) (splits s)"
| "matches (Alt a b) s = (if matches a s then True else matches b s)"
| "matches (Opt a) s = (if s = [] then True else matches a s)"
| "matches (Plus a) s =
     list_ex (\<lambda>(u, v). if u \<noteq> [] then (if matches a u then (if v = [] then True else matches (Plus a) v) else False) else False)
       (splits s)"
| "matches (Rep 0 a) s = (s = [])"
| "matches (Rep (Suc n) a) s =
     list_ex (\<lambda>(u, v). if matches a u then matches (Rep n a) v else False) (splits s)"
  by pat_completeness auto
termination
  by (relation "inv_image (less_than <*lex*> less_than) (\<lambda>(r, s). (rsize r, length s))")
     (auto dest: splits_length)

text \<open>
  \<open>filename.match(re)\<close> for a pattern that ends with \<open>$\<close> and is not anchored at the
  start: the match is the suffix that starts at the first position from which the pattern
  matches up to the end of the string; \<open>null\<close> when there is none.
\<close>

fun matchToEnd :: "rexp \<Rightarrow> string \<Rightarrow> string option" where
  "matchToEnd r [] = (if matches r [] then Some [] else None)"
| "matchToEnd r (c # cs) = (if matches r (c # cs) then Some (c # cs) else matchToEnd r cs)"

text \<open>\<open>split\<close> at a separator character and \<open>join\<close> with a separator.\<close>

fun split :: "char \<Rightarrow> string \<Rightarrow> string list" where
  "split sep [] = [[]]"
| "split sep (c # cs) =
     (if c = sep then [] # split sep cs
      else (case split sep cs of w # ws \<Rightarrow> (c # w) # ws | [] \<Rightarrow> [[c]]))"

fun join :: "string \<Rightarrow> string list \<Rightarrow> string" where
  "join sep [] = []"
| "join sep [w] = w"
| "join sep (w # v # ws) = w @ sep @ join sep (v # ws)"

text \<open>
  The patterns \<open>[-]?\d+(\.\d+)?\<close> of a number and \<open>gif|png|jpg|jpeg|webp\<close> of an
  extension, the pattern of the file name without its final \<open>$\<close> and the pattern of
  the calibration string without its anchors.
\<close>

definition numberRe :: rexp where
  "numberRe = Seq (Opt (Lit ''-'')) (Seq (Plus Digit) (Opt (Seq (Lit ''.'') (Plus Digit))))"

definition extensionRe :: rexp where
  "extensionRe =
     Alt (Lit ''gif'') (Alt (Lit ''png'') (Alt (Lit ''jpg'') (Alt (Lit ''jpeg'') (Lit ''webp''))))"

definition filenameRe :: rexp where
  "filenameRe = Seq (Rep 8 (Seq (Lit ''_'') numberRe)) (Seq (Lit ''_.'') extensionRe)"

definition calibStringRe :: rexp where
  "calibStringRe = Seq numberRe (Rep 7 (Seq (Lit '','') numberRe))"

text \<open>
  \<open>extractCornersCoordsFromFilename\<close> returns \<open>false\<close> (\<open>None\<close>) or a string.
  \<open>pop\<close> and \<open>shift\<close> drop the last and the first element.
\<close>

definition extractCornersCoordsFromFilename :: "string \<Rightarrow> string option" where
  "extractCornersCoordsFromFilename filename =
     (case matchToEnd filenameRe filename of
        None \<Rightarrow> None
      | Some found0 \<Rightarrow>
          (let coords = split CHR ''_'' found0
           in Some (join '','' (tl (butlast coords)))))"

definition isValidCalibString :: "string \<Rightarrow> bool" where
  "isValidCalibString s = matches calibStringRe s"

text \<open>
  The file-name convention as the pattern has it, for the statements below: a prefix,
  eight numbers each after an underscore, one more underscore, a dot and an extension.
\<close>

definition conventional :: "string \<Rightarrow> string list \<Rightarrow> string \<Rightarrow> string \<Rightarrow> bool" where
  "conventional pre ns ext filename =
     (length ns = 8 \<and> list_all (matches numberRe) ns \<and>
      ext \<in> set [''gif'', ''png'', ''jpg'', ''jpeg'', ''webp''] \<and>
      filename = pre @ concat (map (\<lambda>n. ''_'' @ n) ns) @ ''_.'' @ ext)"

section \<open>Properties of the speed series\<close>

declare speedLoop.simps [simp del] distanceLoop.simps [simp del]

lemma cos_sq_minus_sin_sq:
  "(cos ((p + q) / 2))\<^sup>2 - (sin ((p - q) / 2))\<^sup>2 = cos p * cos q" for p q :: real
proof -
  have a: "cos (p + q) = 2 * (cos ((p + q) / 2))\<^sup>2 - 1"
    using cos_double_cos [of "(p + q) / 2"] by (simp del: distrib_left_numeral)
  have b: "cos (p - q) = 1 - 2 * (sin ((p - q) / 2))\<^sup>2"
    using cos_double_sin [of "(p - q) / 2"] by (simp del: right_diff_distrib_numeral)
  have "cos (p + q) + cos (p - q) = 2 * (cos p * cos q)"
    by (simp add: cos_add cos_diff)
  with a b show ?thesis by linarith
qed

lemma pi_ge3: "3 \<le> pi"
  using sin_x_le_x [of "pi / 6"] by (simp add: sin_30)

lemma atan2_nonneg:
  assumes "0 \<le> y"
  shows "0 \<le> atan2 y x"
proof -
  have lb: "0 \<le> arctan (y / x) + pi"
    using arctan_lbound [of "y / x"] pi_gt_zero by linarith
  have pos: "0 < x \<Longrightarrow> 0 \<le> arctan (y / x)"
    using assms by (simp add: zero_le_arctan_iff)
  show ?thesis
    using assms lb pos by (simp add: atan2_def)
qed

lemma haversine_range: "0 \<le> haversine p q \<and> haversine p q \<le> 1"
proof -
  define C :: real where "C = pi / 180"
  define A where "A = (sin ((C * lat p - C * lat q) / 2))\<^sup>2"
  define B where "B = (cos ((C * lat p + C * lat q) / 2))\<^sup>2"
  define u where "u = (sin ((C * (lon p - lon q)) / 2))\<^sup>2"
  have AB: "cos (C * lat p) * cos (C * lat q) = B - A"
    unfolding A_def B_def by (rule cos_sq_minus_sin_sq [symmetric])
  have "C * (lat p - lat q) = C * lat p - C * lat q"
    by (simp add: algebra_simps)
  then have h: "haversine p q = A + (B - A) * u"
    unfolding haversine_def Let_def C_def [symmetric] AB A_def u_def
    by simp
  have A: "0 \<le> A" "A \<le> 1" unfolding A_def by (simp_all add: abs_square_le_1)
  have B: "0 \<le> B" "B \<le> 1" unfolding B_def by (simp_all add: abs_square_le_1)
  have u: "0 \<le> u" "u \<le> 1" unfolding u_def by (simp_all add: abs_square_le_1)
  have eq: "A + (B - A) * u = (1 - u) * A + u * B" by (simp add: algebra_simps)
  have lo: "0 \<le> (1 - u) * A + u * B" using A B u by simp
  have "(1 - u) * A \<le> 1 - u" "u * B \<le> u"
    using A B u mult_left_le [of A "1 - u"] mult_left_le [of B u] by simp_all
  then have hi: "(1 - u) * A + u * B \<le> 1" by simp
  show ?thesis using h eq lo hi by simp
qed

lemma distance_nonneg: "0 \<le> distance p q"
  using haversine_range [of p q] by (simp add: distance_def Let_def atan2_nonneg)

lemma distance_self: "distance p p = 0"
  by (simp add: distance_def haversine_def atan2_def Let_def)


lemma distanceLoop_nonneg: "0 \<le> acc \<Longrightarrow> 0 \<le> distanceLoop pts j acc"
proof (induction pts j acc rule: distanceLoop.induct)
  case (1 pts j acc)
  show ?case
  proof (cases "int j < int (length pts) - 1")
    case True
    have "0 \<le> acc + distance (toLatLon (pts ! j)) (toLatLon (pts ! (j + 1)))"
      using "1.prems" distance_nonneg [of "toLatLon (pts ! j)" "toLatLon (pts ! (j + 1))"]
      by simp
    then show ?thesis
      using True "1.IH" by (subst distanceLoop.simps) simp
  next
    case False
    then show ?thesis
      using "1.prems" by (subst distanceLoop.simps) simp
  qed
qed

lemma distanceLoop_stationary:
  "\<forall>p \<in> set pts. coordinates p = c \<Longrightarrow> distanceLoop pts j acc = acc"
proof (induction pts j acc rule: distanceLoop.induct)
  case (1 pts j acc)
  show ?case
  proof (cases "int j < int (length pts) - 1")
    case True
    then have "toLatLon (pts ! j) = toLatLon (pts ! (j + 1))"
      using "1.prems" by (simp add: toLatLon_def)
    then have "distance (toLatLon (pts ! j)) (toLatLon (pts ! (j + 1))) = 0"
      by (simp add: distance_self)
    then show ?thesis
      using True "1.IH" "1.prems" by (subst distanceLoop.simps) simp
  next
    case False
    then show ?thesis by (subst distanceLoop.simps) simp
  qed
qed

lemma minIdx_le: "minIdx i \<le> i"
  by (simp add: minIdx_def)

lemma maxIdx_less: "i < length tps \<Longrightarrow> maxIdx tps i < length tps"
  by (auto simp: maxIdx_def minIdx_def)

lemma minIdx_le_maxIdx: "i < length tps \<Longrightarrow> minIdx i \<le> maxIdx tps i"
  by (auto simp: maxIdx_def minIdx_def)

lemma minIdx_less_maxIdx: "i < length tps \<Longrightarrow> 2 \<le> length tps \<Longrightarrow> minIdx i < maxIdx tps i"
  by (auto simp: maxIdx_def minIdx_def)

lemma maxIdx_single: "length tps = 1 \<Longrightarrow> maxIdx tps 0 = 0 \<and> minIdx 0 = 0"
  by (auto simp: maxIdx_def minIdx_def)

lemma windowSpeed_increasing:
  assumes "increasingTimes tps" "i < length tps"
  shows "isNaN (windowSpeed tps i) \<or> (\<exists>r. windowSpeed tps i = Fin r \<and> 0 \<le> r)"
proof (cases "2 \<le> length tps")
  case True
  have "time (tps ! minIdx i) < time (tps ! maxIdx tps i)"
    using assms True sorted_wrt_nth_less [of "\<lambda>p q. time p < time q" tps "minIdx i" "maxIdx tps i"]
    by (simp add: increasingTimes_def minIdx_less_maxIdx maxIdx_less)
  moreover have "0 \<le> distanceLoop (slice tps (minIdx i) (maxIdx tps i)) 0 0"
    by (simp add: distanceLoop_nonneg)
  ultimately show ?thesis
    by (simp add: windowSpeed_def Let_def)
next
  case False
  with assms have "length tps = 1" "i = 0" by auto
  then have "windowSpeed tps i = NaN"
    using maxIdx_single [of tps]
    by (simp add: windowSpeed_def Let_def slice_def distanceLoop.simps)
  then show ?thesis by simp
qed

lemma windowSpeed_stationary:
  assumes "increasingTimes tps" "stationary tps" "2 \<le> length tps" "i < length tps"
  shows "windowSpeed tps i = Fin 0"
proof -
  have t: "time (tps ! minIdx i) < time (tps ! maxIdx tps i)"
    using assms sorted_wrt_nth_less [of "\<lambda>p q. time p < time q" tps "minIdx i" "maxIdx tps i"]
    by (simp add: increasingTimes_def minIdx_less_maxIdx maxIdx_less)
  have "\<forall>p \<in> set (slice tps (minIdx i) (maxIdx tps i)). coordinates p = coordinates (hd tps)"
    using assms(2) by (auto simp: stationary_def slice_def list_all_iff dest!: in_set_takeD in_set_dropD)
  then have "distanceLoop (slice tps (minIdx i) (maxIdx tps i)) 0 0 = 0"
    by (rule distanceLoop_stationary)
  with t show ?thesis
    by (simp add: windowSpeed_def Let_def)
qed

lemma speedLoop_length: "length (speedLoop tps i prev acc) = length acc + (length tps - i)"
proof (induction tps i prev acc rule: speedLoop.induct)
  case (1 tps i prev acc)
  show ?case
  proof (cases "i < length tps")
    case True
    then show ?thesis
      using "1.IH" by (subst speedLoop.simps) (simp add: Let_def)
  next
    case False
    then show ?thesis by (subst speedLoop.simps) simp
  qed
qed

lemma speedLoop_prefix: "k < length acc \<Longrightarrow> speedLoop tps i prev acc ! k = acc ! k"
proof (induction tps i prev acc rule: speedLoop.induct)
  case (1 tps i prev acc)
  show ?case
  proof (cases "i < length tps")
    case True
    then show ?thesis
      using "1.IH" "1.prems" by (subst speedLoop.simps) (simp add: Let_def nth_append)
  next
    case False
    then show ?thesis by (subst speedLoop.simps) simp
  qed
qed

lemma speedLoop_all:
  "\<forall>k < length tps. isNaN (windowSpeed tps k) \<or> P (windowSpeed tps k) \<Longrightarrow>
   P prev \<Longrightarrow> list_all P acc \<Longrightarrow> list_all P (speedLoop tps i prev acc)"
proof (induction tps i prev acc rule: speedLoop.induct)
  case (1 tps i prev acc)
  show ?case
  proof (cases "i < length tps")
    case True
    define speed where "speed = (if isNaN (windowSpeed tps i) then prev else windowSpeed tps i)"
    have "P speed"
      using "1.prems"(1,2) True by (auto simp: speed_def)
    moreover have "list_all P (acc @ [speed])"
      using "1.prems"(3) \<open>P speed\<close> by simp
    ultimately have "list_all P (speedLoop tps (i + 1) speed (acc @ [speed]))"
      using "1.IH" [OF True refl speed_def] "1.prems"(1) by blast
    then show ?thesis
      using True by (subst speedLoop.simps) (simp add: Let_def speed_def)
  next
    case False
    then show ?thesis
      using "1.prems" by (subst speedLoop.simps) simp
  qed
qed

lemma speedLoop_nth:
  "length acc = i \<Longrightarrow> prev = (if i = 0 then Fin 1 else last acc) \<Longrightarrow>
   i \<le> k \<Longrightarrow> k < length tps \<Longrightarrow>
   speedLoop tps i prev acc ! k =
     (if isNaN (windowSpeed tps k)
      then (if k = 0 then Fin 1 else speedLoop tps i prev acc ! (k - 1))
      else windowSpeed tps k)"
proof (induction tps i prev acc rule: speedLoop.induct)
  case (1 tps i prev acc)
  have lt: "i < length tps" using "1.prems" by simp
  define speed where "speed = (if isNaN (windowSpeed tps i) then prev else windowSpeed tps i)"
  have unfold: "speedLoop tps i prev acc = speedLoop tps (i + 1) speed (acc @ [speed])"
    using lt by (subst speedLoop.simps) (simp add: Let_def speed_def)
  show ?case
  proof (cases "k = i")
    case True
    have "speedLoop tps (i + 1) speed (acc @ [speed]) ! i = speed"
      using "1.prems"(1) by (simp add: speedLoop_prefix nth_append)
    moreover have "0 < i \<Longrightarrow> speedLoop tps (i + 1) speed (acc @ [speed]) ! (i - 1) = last acc"
      using "1.prems"(1) by (cases acc rule: rev_cases) (auto simp: speedLoop_prefix nth_append)
    ultimately show ?thesis
      using True "1.prems"(2) unfolding unfold by (auto simp: speed_def)
  next
    case False
    then have "i + 1 \<le> k" using "1.prems" by simp
    then show ?thesis
      using "1.IH" [OF lt refl speed_def, of ] "1.prems" unfolding unfold by simp
  qed
qed


lemma extractSpeed_stationary:
  assumes "increasingTimes tps" "stationary tps" "2 \<le> length tps"
  shows "extractSpeed tps = replicate (length tps) (Fin 0)"
proof (rule nth_equalityI)
  show "length (extractSpeed tps) = length (replicate (length tps) (Fin 0))"
    by (simp add: extractSpeed_def speedLoop_length)
next
  fix i assume "i < length (extractSpeed tps)"
  then have i: "i < length tps" by (simp add: extractSpeed_def speedLoop_length)
  have "windowSpeed tps i = Fin 0"
    using assms i by (rule windowSpeed_stationary)
  then have "extractSpeed tps ! i = Fin 0"
    using i speedLoop_nth [of "[]" 0 "Fin 1" i tps] by (simp add: extractSpeed_def)
  then show "extractSpeed tps ! i = replicate (length tps) (Fin 0) ! i"
    using i by simp
qed

lemma finiteNonneg_iff: "finiteNonneg v \<longleftrightarrow> (\<exists>r. v = Fin r \<and> 0 \<le> r)"
  by (cases v) auto

lemma distance_antipodal: "distance (LatLon 0 0) (LatLon 0 180) = 12756274 * (pi / 2)"
proof -
  have "haversine (LatLon 0 0) (LatLon 0 180) = 1"
    by (simp add: haversine_def Let_def)
  then show ?thesis by (simp add: distance_def Let_def atan2_def)
qed

lemma distanceLoop_pair:
  "distanceLoop [p, q] 0 0 = distance (toLatLon p) (toLatLon q)"
  by (simp add: distanceLoop.simps)

lemma distanceLoop_single: "distanceLoop [p] 0 0 = 0"
  by (simp add: distanceLoop.simps)

subsection \<open>C3: what a window's speed is\<close>

text \<open>
  Claim C3: the \<open>i\<close>-th value of \<open>extractSpeed\<close> is the sum of the great-circle
  distances between consecutive points of the window from \<open>max (i - 10) 0\<close> to that
  index plus ten (clamped to the track), divided by the time elapsed between the window's
  end point and its start point, in km/h.

  The code differs by one point. \<open>slice minIdx maxIdx\<close> leaves the point at
  \<open>maxIdx\<close> out, so the distance runs over the points \<open>minIdx .. maxIdx - 1\<close>, while
  the elapsed time is taken between \<open>minIdx\<close> and \<open>maxIdx\<close>. For a track of two
  points half the equator apart and ten seconds apart, every slice holds one point: the
  code returns the speeds \<open>0, 0\<close>, where the claimed value of index 0 is positive.
\<close>

theorem extractSpeed_window_off_by_one:
  "extractSpeed [\<lparr>time = 0, coordinates = (0, 0)\<rparr>,
                 \<lparr>time = 10000, coordinates = (0, 180)\<rparr>] = [Fin 0, Fin 0] \<and>
   claimedWindowSpeed [\<lparr>time = 0, coordinates = (0, 0)\<rparr>,
                 \<lparr>time = 10000, coordinates = (0, 180)\<rparr>] 0
     = Fin (12756274 * (pi / 2) / 10000 * 3600) \<and>
   0 < 12756274 * (pi / 2) / 10000 * 3600"
proof -
  have w: "windowSpeed [\<lparr>time = 0, coordinates = (0, 0)\<rparr>,
                 \<lparr>time = 10000, coordinates = (0, 180)\<rparr>] i = Fin 0" if "i < 2" for i
  proof -
    have "i = 0 \<or> i = 1" using that by auto
    then show ?thesis
      by (auto simp add: windowSpeed_def minIdx_def maxIdx_def slice_def Let_def
          distanceLoop_single)
  qed
  have a: "extractSpeed [\<lparr>time = 0, coordinates = (0, 0)\<rparr>,
                 \<lparr>time = 10000, coordinates = (0, 180)\<rparr>] = [Fin 0, Fin 0]"
    by (simp add: extractSpeed_def speedLoop.simps w Let_def)
  have b: "claimedWindowSpeed [\<lparr>time = 0, coordinates = (0, 0)\<rparr>,
                 \<lparr>time = 10000, coordinates = (0, 180)\<rparr>] 0
     = Fin (12756274 * (pi / 2) / 10000 * 3600)"
    by (simp add: claimedWindowSpeed_def minIdx_def maxIdx_def slice_def Let_def
          distanceLoop_pair toLatLon_def distance_antipodal)
  show ?thesis using a b by simp
qed

subsection \<open>C4: the values of the speed series\<close>

text \<open>
  Claim C4, as the code has it. For every track (finite coordinates and timestamps):
  the series has one value per track point and none of them is \<open>NaN\<close>; the value of
  index \<open>i\<close> is the window's speed, or, when that is \<open>NaN\<close> (no elapsed time and no
  distance in the window), the value of index \<open>i - 1\<close> (the seed 1 km/h at index 0);
  when the timestamps increase strictly every value is finite and not negative; and a
  stationary track of at least two points with strictly increasing timestamps yields
  zeros only.
\<close>

theorem extractSpeed_values:
  "length (extractSpeed tps) = length tps \<and>
   list_all (\<lambda>v. \<not> isNaN v) (extractSpeed tps) \<and>
   (\<forall>i < length tps.
      extractSpeed tps ! i =
        (if isNaN (windowSpeed tps i)
         then (if i = 0 then Fin 1 else extractSpeed tps ! (i - 1))
         else windowSpeed tps i)) \<and>
   (increasingTimes tps \<longrightarrow> list_all finiteNonneg (extractSpeed tps)) \<and>
   (increasingTimes tps \<and> stationary tps \<and> 2 \<le> length tps \<longrightarrow>
      extractSpeed tps = replicate (length tps) (Fin 0))"
proof (intro conjI allI impI)
  show "length (extractSpeed tps) = length tps"
    by (simp add: extractSpeed_def speedLoop_length)
  show "list_all (\<lambda>v. \<not> isNaN v) (extractSpeed tps)"
    unfolding extractSpeed_def by (rule speedLoop_all) simp_all
  show "extractSpeed tps ! i =
        (if isNaN (windowSpeed tps i)
         then (if i = 0 then Fin 1 else extractSpeed tps ! (i - 1))
         else windowSpeed tps i)" if "i < length tps" for i
    using that speedLoop_nth [of "[]" 0 "Fin 1" i tps] by (simp add: extractSpeed_def)
  show "list_all finiteNonneg (extractSpeed tps)" if "increasingTimes tps"
    unfolding extractSpeed_def
  proof (rule speedLoop_all)
    show "\<forall>k<length tps. isNaN (windowSpeed tps k) \<or> finiteNonneg (windowSpeed tps k)"
      using windowSpeed_increasing [OF that] by (auto simp: finiteNonneg_iff)
  qed simp_all
  show "extractSpeed tps = replicate (length tps) (Fin 0)"
    if "increasingTimes tps \<and> stationary tps \<and> 2 \<le> length tps"
    using that by (simp add: extractSpeed_stationary)
qed

text \<open>The premises hold for the specification's track of two points ten seconds apart.\<close>

theorem extractSpeed_values_witness:
  "increasingTimes [\<lparr>time = 0, coordinates = (60.05, 24.95)\<rparr>,
                    \<lparr>time = 10000, coordinates = (60.05, 24.95)\<rparr>] \<and>
   stationary [\<lparr>time = 0, coordinates = (60.05, 24.95)\<rparr>,
               \<lparr>time = 10000, coordinates = (60.05, 24.95)\<rparr>] \<and>
   extractSpeed [\<lparr>time = 0, coordinates = (60.05, 24.95)\<rparr>,
                 \<lparr>time = 10000, coordinates = (60.05, 24.95)\<rparr>] = [Fin 0, Fin 0] \<and>
   list_all finiteNonneg (extractSpeed [\<lparr>time = 0, coordinates = (60.05, 24.95)\<rparr>,
                 \<lparr>time = 10000, coordinates = (60.05, 24.95)\<rparr>])"
  using extractSpeed_values [of "[\<lparr>time = 0, coordinates = (60.05, 24.95)\<rparr>,
                                  \<lparr>time = 10000, coordinates = (60.05, 24.95)\<rparr>]"]
  by (simp add: increasingTimes_def stationary_def numeral_2_eq_2)

text \<open>
  Claim C4 as stated fails twice. A track of a single point is stationary and its
  timestamps increase strictly, yet its speed is the seed 1, not 0. And three points with
  one timestamp, the first two half the equator apart, have the speed \<open>Infinity\<close>
  throughout: the elapsed time is zero, the distance is not, and only \<open>NaN\<close> is
  replaced.
\<close>

theorem extractSpeed_not_finite_counterexample:
  "stationary [\<lparr>time = 0, coordinates = (60.05, 24.95)\<rparr>] \<and>
   increasingTimes [\<lparr>time = 0, coordinates = (60.05, 24.95)\<rparr>] \<and>
   extractSpeed [\<lparr>time = 0, coordinates = (60.05, 24.95)\<rparr>] = [Fin 1] \<and>
   extractSpeed [\<lparr>time = 0, coordinates = (0, 0)\<rparr>,
                 \<lparr>time = 0, coordinates = (0, 180)\<rparr>,
                 \<lparr>time = 0, coordinates = (0, 0)\<rparr>] = [PInf, PInf, PInf]"
proof -
  have one: "extractSpeed [\<lparr>time = 0, coordinates = (60.05, 24.95)\<rparr>] = [Fin 1]"
    by (simp add: extractSpeed_def speedLoop.simps windowSpeed_def minIdx_def maxIdx_def
        slice_def distanceLoop.simps Let_def)
  have w: "windowSpeed [\<lparr>time = 0, coordinates = (0, 0)\<rparr>,
                 \<lparr>time = 0, coordinates = (0, 180)\<rparr>,
                 \<lparr>time = 0, coordinates = (0, 0)\<rparr>] i = PInf" if "i < 3" for i
  proof -
    have "i = 0 \<or> i = 1 \<or> i = 2" using that by auto
    then show ?thesis
      by (auto simp add: windowSpeed_def minIdx_def maxIdx_def slice_def Let_def
          distanceLoop_pair toLatLon_def distance_antipodal signedInf_def)
  qed
  have three: "extractSpeed [\<lparr>time = 0, coordinates = (0, 0)\<rparr>,
                 \<lparr>time = 0, coordinates = (0, 180)\<rparr>,
                 \<lparr>time = 0, coordinates = (0, 0)\<rparr>] = [PInf, PInf, PInf]"
    by (simp add: extractSpeed_def speedLoop.simps w Let_def)
  show ?thesis
    using one three by (simp add: stationary_def increasingTimes_def)
qed

section \<open>Properties of the zoom level and of the palette lookup\<close>

declare zoomLoop.simps [simp del]

lemma resolution_pos: "0 < resolution z"
  by (simp add: resolution_def originShift_def rad_def)

lemma resolution_Suc: "resolution (Suc z) = resolution z / 2"
  by (simp add: resolution_def)

lemma resolution_antimono: "i \<le> j \<Longrightarrow> resolution j \<le> resolution i"
proof (induction j)
  case 0
  then show ?case by simp
next
  case (Suc j)
  show ?case
  proof (cases "i = Suc j")
    case True
    then show ?thesis by simp
  next
    case False
    with Suc have "resolution j \<le> resolution i" by simp
    moreover have "resolution (Suc j) \<le> resolution j"
      using resolution_pos [of j] by (simp add: resolution_Suc)
    ultimately show ?thesis by linarith
  qed
qed

lemma zoomLoop_skip:
  "i \<le> k \<Longrightarrow> k \<le> 30 \<Longrightarrow> s \<le> resolution (k - 1) \<or> k = 0 \<Longrightarrow> i = 0 \<or> s \<le> resolution (i - 1) \<Longrightarrow>
   zoomLoop s i = zoomLoop s k"
proof (induction "k - i" arbitrary: i)
  case 0
  then show ?case by simp
next
  case (Suc n)
  then have i: "i < k" "i < 30" by auto
  have "resolution (k - 1) \<le> resolution i"
    using i by (intro resolution_antimono) simp
  then have le: "s \<le> resolution i" using Suc.prems i by auto
  have "zoomLoop s (i + 1) = zoomLoop s k"
    using Suc.hyps(1) [of "i + 1"] Suc.hyps(2) Suc.prems i le by simp
  then show ?case
    using i le by (subst zoomLoop.simps) simp
qed

lemma zoomLoop_hit:
  "k < 30 \<Longrightarrow> resolution k < s \<Longrightarrow> zoomLoop s k = Some (max (int k - 1) 0)"
  by (subst zoomLoop.simps) simp

lemma zoomLoop_end: "zoomLoop s 30 = None"
  by (subst zoomLoop.simps) simp

lemma resolution_0_bounds: "149487 < resolution 0"
  using pi_ge3 by (simp add: resolution_def originShift_def rad_def)

lemma resolution_1_bounds: "resolution 1 < 99659"
  using pi_less_4 by (simp add: resolution_def originShift_def rad_def)

lemma valueRelative_cases:
  "(case valueRelative mn mx v of Fin x \<Rightarrow> 0 \<le> x \<and> x \<le> 0.999 | _ \<Rightarrow> False)"
  by (cases "jdiv (jsub v (toNumber mn)) (jsub (toNumber mx) (toNumber mn))")
     (simp_all add: valueRelative_def normalizedValue_def Let_def jmax_def jmin_def)

lemma valueRelative_range:
  "\<exists>x. valueRelative mn mx v = Fin x \<and> 0 \<le> x \<and> x \<le> 0.999"
  using valueRelative_cases [of mn mx v]
  by (cases "valueRelative mn mx v") simp_all

lemma valueRelative_NaN:
  "isNaN (normalizedValue mn mx v) \<Longrightarrow> valueRelative mn mx v = Fin 0"
  by (simp add: valueRelative_def Let_def)

lemma paletteIndex_range:
  assumes "0 \<le> x" "x \<le> 0.999" "4 \<le> length palette"
  shows "\<exists>k. paletteIndex palette (Fin x) = Fin (real k) \<and> k + 4 \<le> length palette"
proof -
  define n where "n = \<lfloor>x * 256\<rfloor>"
  have n0: "0 \<le> n" using assms(1) by (simp add: n_def)
  define m where "m = min (4 * n) (int (length palette) - 4)"
  have m0: "0 \<le> m" using n0 assms(3) by (simp add: m_def)
  have "paletteIndex palette (Fin x) = Fin (of_int m)"
    by (auto simp: paletteIndex_def jmin_def n_def m_def min_def)
  also have "of_int m = real (nat m)" using m0 by simp
  finally have "paletteIndex palette (Fin x) = Fin (real (nat m))" .
  moreover have "nat m + 4 \<le> length palette"
    using m0 assms(3) by (simp add: m_def)
  ultimately show ?thesis by blast
qed

lemma paletteIndex_zero: "4 \<le> length palette \<Longrightarrow> paletteIndex palette (Fin 0) = Fin 0"
  by (simp add: paletteIndex_def jmin_def)

lemma typedArrayGet_nat: "k < length a \<Longrightarrow> typedArrayGet a (Fin (real k)) = Some (a ! k)"
  by (simp add: typedArrayGet_def)

lemma jadd_index: "jadd (Fin (real k)) (Fin (real n)) = Fin (real (k + n))"
  by simp

lemma getRGBForPercent_defined:
  assumes "paletteIndex palette v = Fin (real k)" "k + 4 \<le> length palette"
  shows "getRGBForPercent palette v = [Some (palette ! k), Some (palette ! (k + 1)), Some (palette ! (k + 2))]"
proof -
  have a: "typedArrayGet palette (Fin (real k)) = Some (palette ! k)"
    using assms(2) by (intro typedArrayGet_nat) simp
  have "jadd (Fin (real k)) (Fin 1) = Fin (real (k + 1))" "k + 1 < length palette"
    using assms(2) by simp_all
  then have b: "typedArrayGet palette (jadd (Fin (real k)) (Fin 1)) = Some (palette ! (k + 1))"
    by (simp only: typedArrayGet_nat)
  have "jadd (Fin (real k)) (Fin 2) = Fin (real (k + 2))" "k + 2 < length palette"
    using assms(2) by simp_all
  then have c: "typedArrayGet palette (jadd (Fin (real k)) (Fin 2)) = Some (palette ! (k + 2))"
    by (simp only: typedArrayGet_nat)
  show ?thesis
    unfolding getRGBForPercent_def Let_def assms(1) a b c by (rule refl)
qed

subsection \<open>C6: the zoom level of a pixel size\<close>

text \<open>
  Claim C6, as the code has it. \<open>zoomForPixelSize\<close> returns \<open>max (i - 1) 0\<close> for the
  first zoom level \<open>i\<close> in 0..29 whose resolution is strictly below the pixel size: 0 for
  a size above the resolution of zoom 0; the zoom level \<open>z \<le> 28\<close> for a size in the
  interval from the resolution of \<open>z + 1\<close> (excluded) to that of \<open>z\<close> (included), which
  is the largest zoom level whose resolution is not below the size; and \<open>undefined\<close>
  for a size at or below the resolution of zoom 29.
\<close>

theorem zoomForPixelSize_value:
  "(resolution 0 < s \<longrightarrow> zoomForPixelSize s = Some 0) \<and>
   (\<forall>z < 29. resolution (z + 1) < s \<and> s \<le> resolution z \<longrightarrow> zoomForPixelSize s = Some (int z)) \<and>
   (s \<le> resolution 29 \<longrightarrow> zoomForPixelSize s = None)"
proof (intro conjI allI impI)
  show "zoomForPixelSize s = Some 0" if "resolution 0 < s"
    using that zoomLoop_hit [of 0 s] by (simp add: zoomForPixelSize_def)
  show "zoomForPixelSize s = Some (int z)"
    if "z < 29" "resolution (z + 1) < s \<and> s \<le> resolution z" for z
  proof -
    have "zoomLoop s 0 = zoomLoop s (z + 1)"
      using that by (intro zoomLoop_skip) simp_all
    also have "\<dots> = Some (max (int (z + 1) - 1) 0)"
      using that by (intro zoomLoop_hit) simp_all
    finally show ?thesis by (simp add: zoomForPixelSize_def)
  qed
  show "zoomForPixelSize s = None" if "s \<le> resolution 29"
  proof -
    have "zoomLoop s 0 = zoomLoop s 30"
      using that by (intro zoomLoop_skip) simp_all
    then show ?thesis by (simp add: zoomForPixelSize_def zoomLoop_end)
  qed
qed

text \<open>The pixel size 100000 lies between the resolutions of zoom 1 and zoom 0.\<close>

theorem zoomForPixelSize_witness:
  "resolution (0 + 1) < 100000 \<and> 100000 \<le> resolution 0 \<and> zoomForPixelSize 100000 = Some 0"
  using zoomForPixelSize_value [of 100000, THEN conjunct2, THEN conjunct1, rule_format, of 0]
    resolution_0_bounds resolution_1_bounds
  by simp

text \<open>
  Claim C6 as stated says the smallest zoom level whose resolution is at most the size.
  For the size 100000 that level is 1 (the resolution of zoom 0 is about 156543, that of
  zoom 1 about 78272); the code returns 0, whose resolution exceeds the size.
\<close>

theorem zoomForPixelSize_counterexample:
  "zoomForPixelSize 100000 = Some 0 \<and> \<not> resolution 0 \<le> 100000 \<and> resolution 1 \<le> 100000"
proof -
  have "zoomLoop 100000 0 = zoomLoop 100000 1"
    using resolution_0_bounds by (subst zoomLoop.simps) simp
  also have "\<dots> = Some 0"
    using resolution_1_bounds by (subst zoomLoop.simps) simp
  finally show ?thesis
    using resolution_0_bounds resolution_1_bounds by (simp add: zoomForPixelSize_def)
qed

subsection \<open>C10: the palette index stays in bounds\<close>

text \<open>
  Claim C10: for every value passed to \<open>getRGBForValue\<close>, \<open>NaN\<close> and the infinities
  included, and whatever \<open>minSpeed\<close> and \<open>maxSpeed\<close> are, the palette index is a whole
  number between 0 and \<open>palette.length - 4\<close>, so the three components returned are
  defined; when the normalized value is \<open>NaN\<close> the index is 0, the red end of the
  palette. The palette of the code has 1024 entries; the statement needs four.
\<close>

theorem getRGBForValue_in_bounds:
  assumes "4 \<le> length palette"
  shows "(\<exists>k. paletteIndex palette (valueRelative minSpeed maxSpeed v) = Fin (real k) \<and>
              k + 4 \<le> length palette \<and>
              getRGBForValue palette minSpeed maxSpeed v =
                [Some (palette ! k), Some (palette ! (k + 1)), Some (palette ! (k + 2))]) \<and>
         (isNaN (normalizedValue minSpeed maxSpeed v) \<longrightarrow>
            paletteIndex palette (valueRelative minSpeed maxSpeed v) = Fin 0 \<and>
            getRGBForValue palette minSpeed maxSpeed v =
              [Some (palette ! 0), Some (palette ! 1), Some (palette ! 2)])"
proof
  obtain x where x: "valueRelative minSpeed maxSpeed v = Fin x" "0 \<le> x" "x \<le> 0.999"
    using valueRelative_range by blast
  obtain k where k: "paletteIndex palette (Fin x) = Fin (real k)" "k + 4 \<le> length palette"
    using paletteIndex_range [OF x(2,3) assms] by blast
  show "\<exists>k. paletteIndex palette (valueRelative minSpeed maxSpeed v) = Fin (real k) \<and>
              k + 4 \<le> length palette \<and>
              getRGBForValue palette minSpeed maxSpeed v =
                [Some (palette ! k), Some (palette ! (k + 1)), Some (palette ! (k + 2))]"
    using k getRGBForPercent_defined [OF k] by (auto simp: getRGBForValue_def x(1))
next
  show "isNaN (normalizedValue minSpeed maxSpeed v) \<longrightarrow>
            paletteIndex palette (valueRelative minSpeed maxSpeed v) = Fin 0 \<and>
            getRGBForValue palette minSpeed maxSpeed v =
              [Some (palette ! 0), Some (palette ! 1), Some (palette ! 2)]"
  proof
    assume "isNaN (normalizedValue minSpeed maxSpeed v)"
    then have v0: "valueRelative minSpeed maxSpeed v = Fin 0" by (rule valueRelative_NaN)
    have p0: "paletteIndex palette (Fin 0) = Fin (real 0)"
      using assms by (simp add: paletteIndex_zero)
    have "getRGBForPercent palette (Fin 0) =
            [Some (palette ! 0), Some (palette ! (0 + 1)), Some (palette ! (0 + 2))]"
      using assms by (intro getRGBForPercent_defined [OF p0]) simp
    then show "paletteIndex palette (valueRelative minSpeed maxSpeed v) = Fin 0 \<and>
            getRGBForValue palette minSpeed maxSpeed v =
              [Some (palette ! 0), Some (palette ! 1), Some (palette ! 2)]"
      using p0 by (simp add: getRGBForValue_def v0 numeral_2_eq_2)
  qed
qed

text \<open>
  A palette of 1024 bytes starting with red, and the speed 1 between the bounds 1 and 1
  (the series of a single-point track): the normalized value is \<open>0 / 0\<close>.
\<close>

theorem getRGBForValue_in_bounds_witness:
  "4 \<le> length ([255, 0, 0, 255] @ replicate 1020 (0::nat)) \<and>
   isNaN (normalizedValue (Some (Fin 1)) (Some (Fin 1)) (Fin 1)) \<and>
   getRGBForValue ([255, 0, 0, 255] @ replicate 1020 0) (Some (Fin 1)) (Some (Fin 1)) (Fin 1)
     = [Some 255, Some 0, Some 0]"
  using getRGBForValue_in_bounds [of "[255, 0, 0, 255] @ replicate 1020 0"
      "Some (Fin 1)" "Some (Fin 1)" "Fin 1"]
  by (simp add: normalizedValue_def jsub_def jmax_def jmin_def)

section \<open>Properties of the calibration\<close>

lemma mat3_cases:
  obtains m0 m1 m2 m3 m4 m5 m6 m7 m8 where "m = (m0, m1, m2, m3, m4, m5, m6, m7, (m8::real))"
  by (cases m rule: prod_cases7) (auto elim: prod_cases3)

lemma multmv_multmm: "multmv (multmm a b) v = multmv a (multmv b v)"
proof -
  obtain a0 a1 a2 a3 a4 a5 a6 a7 a8 where a: "a = (a0, a1, a2, a3, a4, a5, a6, a7, a8)"
    by (rule mat3_cases)
  obtain b0 b1 b2 b3 b4 b5 b6 b7 b8 where b: "b = (b0, b1, b2, b3, b4, b5, b6, b7, b8)"
    by (rule mat3_cases)
  obtain v0 v1 v2 where v: "v = (v0, v1, v2)"
    by (rule prod_cases3)
  show ?thesis
    unfolding a b v by (simp add: algebra_simps)
qed

lemma basisToPoints_eq:
  "basisToPoints x1 y1 x2 y2 x3 y3 x4 y4 =
     multmm (x1, x2, x3, y1, y2, y3, 1, 1, 1)
       (det3pts x4 y4 x2 y2 x3 y3, 0, 0,
        0, det3pts x1 y1 x4 y4 x3 y3, 0,
        0, 0, det3pts x1 y1 x2 y2 x4 y4)"
  by (simp add: basisToPoints_def det3pts_def Let_def algebra_simps)

lemma adj_multmm_diag:
  "adj (multmm m (a, 0, 0, 0, b, 0, 0, 0, c)) =
     multmm (b * c, 0, 0, 0, a * c, 0, 0, 0, a * b) (adj m)"
proof -
  obtain m0 m1 m2 m3 m4 m5 m6 m7 m8 where m: "m = (m0, m1, m2, m3, m4, m5, m6, m7, m8)"
    by (rule mat3_cases)
  show ?thesis unfolding m by (simp add: algebra_simps)
qed

lemma adj_points:
  "multmv (adj (x1, x2, x3, y1, y2, y3, 1, 1, 1)) (x1, y1, 1) = (det3pts x1 y1 x2 y2 x3 y3, 0, 0)"
  "multmv (adj (x1, x2, x3, y1, y2, y3, 1, 1, 1)) (x2, y2, 1) = (0, det3pts x1 y1 x2 y2 x3 y3, 0)"
  "multmv (adj (x1, x2, x3, y1, y2, y3, 1, 1, 1)) (x3, y3, 1) = (0, 0, det3pts x1 y1 x2 y2 x3 y3)"
  "multmv (adj (x1, x2, x3, y1, y2, y3, 1, 1, 1)) (x4, y4, 1) =
     (det3pts x4 y4 x2 y2 x3 y3, det3pts x1 y1 x4 y4 x3 y3, det3pts x1 y1 x2 y2 x4 y4)"
  by (simp_all add: det3pts_def algebra_simps)

lemma basisToPoints_apply:
  "multmv (basisToPoints x1 y1 x2 y2 x3 y3 x4 y4) (p, q, r) =
     (p * det3pts x4 y4 x2 y2 x3 y3 * x1 + q * det3pts x1 y1 x4 y4 x3 y3 * x2 + r * det3pts x1 y1 x2 y2 x4 y4 * x3,
      p * det3pts x4 y4 x2 y2 x3 y3 * y1 + q * det3pts x1 y1 x4 y4 x3 y3 * y2 + r * det3pts x1 y1 x2 y2 x4 y4 * y3,
      p * det3pts x4 y4 x2 y2 x3 y3 + q * det3pts x1 y1 x4 y4 x3 y3 + r * det3pts x1 y1 x2 y2 x4 y4)"
  unfolding basisToPoints_eq by simp

lemma det3pts_sum:
  "det3pts x4 y4 x2 y2 x3 y3 + det3pts x1 y1 x4 y4 x3 y3 + det3pts x1 y1 x2 y2 x4 y4
     = det3pts x1 y1 x2 y2 x3 y3"
  "det3pts x4 y4 x2 y2 x3 y3 * x1 + det3pts x1 y1 x4 y4 x3 y3 * x2 + det3pts x1 y1 x2 y2 x4 y4 * x3
     = det3pts x1 y1 x2 y2 x3 y3 * x4"
  "det3pts x4 y4 x2 y2 x3 y3 * y1 + det3pts x1 y1 x4 y4 x3 y3 * y2 + det3pts x1 y1 x2 y2 x4 y4 * y3
     = det3pts x1 y1 x2 y2 x3 y3 * y4"
  by (simp_all add: det3pts_def algebra_simps)

lemma adj_basisToPoints:
  "multmv (adj (basisToPoints x1 y1 x2 y2 x3 y3 x4 y4)) (x1, y1, 1) =
     (det3pts x1 y1 x4 y4 x3 y3 * det3pts x1 y1 x2 y2 x4 y4 * det3pts x1 y1 x2 y2 x3 y3, 0, 0)"
  "multmv (adj (basisToPoints x1 y1 x2 y2 x3 y3 x4 y4)) (x2, y2, 1) =
     (0, det3pts x4 y4 x2 y2 x3 y3 * det3pts x1 y1 x2 y2 x4 y4 * det3pts x1 y1 x2 y2 x3 y3, 0)"
  "multmv (adj (basisToPoints x1 y1 x2 y2 x3 y3 x4 y4)) (x3, y3, 1) =
     (0, 0, det3pts x4 y4 x2 y2 x3 y3 * det3pts x1 y1 x4 y4 x3 y3 * det3pts x1 y1 x2 y2 x3 y3)"
  "multmv (adj (basisToPoints x1 y1 x2 y2 x3 y3 x4 y4)) (x4, y4, 1) =
     (det3pts x4 y4 x2 y2 x3 y3 * det3pts x1 y1 x4 y4 x3 y3 * det3pts x1 y1 x2 y2 x4 y4,
      det3pts x4 y4 x2 y2 x3 y3 * det3pts x1 y1 x4 y4 x3 y3 * det3pts x1 y1 x2 y2 x4 y4,
      det3pts x4 y4 x2 y2 x3 y3 * det3pts x1 y1 x4 y4 x3 y3 * det3pts x1 y1 x2 y2 x4 y4)"
  unfolding basisToPoints_eq adj_multmm_diag multmv_multmm adj_points
  by simp_all


lemma basisToPoints_apply_diag:
  "multmv (basisToPoints x1 y1 x2 y2 x3 y3 x4 y4) (t, t, t) =
     (t * det3pts x1 y1 x2 y2 x3 y3 * x4, t * det3pts x1 y1 x2 y2 x3 y3 * y4,
      t * det3pts x1 y1 x2 y2 x3 y3)"
  by (simp add: basisToPoints_def det3pts_def Let_def algebra_simps)

lemma general2DProjection_apply:
  "multmv (general2DProjection x1s y1s x1d y1d x2s y2s x2d y2d x3s y3s x3d y3d x4s y4s x4d y4d)
          (x1s, y1s, 1) =
     (let k = det3pts x1s y1s x4s y4s x3s y3s * det3pts x1s y1s x2s y2s x4s y4s
              * det3pts x1s y1s x2s y2s x3s y3s * det3pts x4d y4d x2d y2d x3d y3d
      in (k * x1d, k * y1d, k))"
  "multmv (general2DProjection x1s y1s x1d y1d x2s y2s x2d y2d x3s y3s x3d y3d x4s y4s x4d y4d)
          (x2s, y2s, 1) =
     (let k = det3pts x4s y4s x2s y2s x3s y3s * det3pts x1s y1s x2s y2s x4s y4s
              * det3pts x1s y1s x2s y2s x3s y3s * det3pts x1d y1d x4d y4d x3d y3d
      in (k * x2d, k * y2d, k))"
  "multmv (general2DProjection x1s y1s x1d y1d x2s y2s x2d y2d x3s y3s x3d y3d x4s y4s x4d y4d)
          (x3s, y3s, 1) =
     (let k = det3pts x4s y4s x2s y2s x3s y3s * det3pts x1s y1s x4s y4s x3s y3s
              * det3pts x1s y1s x2s y2s x3s y3s * det3pts x1d y1d x2d y2d x4d y4d
      in (k * x3d, k * y3d, k))"
  unfolding general2DProjection_def Let_def multmv_multmm adj_basisToPoints basisToPoints_apply
  by (simp_all add: algebra_simps)

lemma general2DProjection_apply_4:
  "multmv (general2DProjection x1s y1s x1d y1d x2s y2s x2d y2d x3s y3s x3d y3d x4s y4s x4d y4d)
          (x4s, y4s, 1) =
     (let k = det3pts x4s y4s x2s y2s x3s y3s * det3pts x1s y1s x4s y4s x3s y3s
              * det3pts x1s y1s x2s y2s x4s y4s * det3pts x1d y1d x2d y2d x3d y3d
      in (k * x4d, k * y4d, k))"
  unfolding general2DProjection_def Let_def multmv_multmm adj_basisToPoints basisToPoints_apply_diag
  by simp

lemma project_homogeneous:
  "multmv m (px, py, 1) = (k * a, k * b, k) \<Longrightarrow>
   project m px py = (if k = 0 then (NaN, NaN) else (Fin a, Fin b))"
  by (simp add: project_def)


lemma collinear_det3pts:
  "collinear p q r \<longleftrightarrow> det3pts (x_of p) (y_of p) (x_of q) (y_of q) (x_of r) (y_of r) = 0"
  by (simp add: collinear_def det3pts_def)

lemma det3pts_rectangle:
  "det3pts 0 h w 0 w h = w * h" "det3pts 0 0 0 h w h = - (w * h)"
  "det3pts 0 0 w 0 0 h = w * h" "det3pts 0 0 w 0 w h = w * h"
  by (simp_all add: det3pts_def)

lemma cornerCalTransform_corners:
  fixes tl tr br bl :: LatLon and w h :: real
  defines "p1 \<equiv> LatLonToMeters tl" and "p2 \<equiv> LatLonToMeters tr"
    and "p3 \<equiv> LatLonToMeters br" and "p4 \<equiv> LatLonToMeters bl"
  shows "cornerCalTransform w h tl tr br bl tl =
           (if collinear p1 p4 p3 \<or> collinear p1 p2 p4 \<or> collinear p1 p2 p3 \<or> w = 0 \<or> h = 0
            then Point NaN NaN else Point (Fin 0) (Fin 0))"
    and "cornerCalTransform w h tl tr br bl tr =
           (if collinear p4 p2 p3 \<or> collinear p1 p2 p4 \<or> collinear p1 p2 p3 \<or> w = 0 \<or> h = 0
            then Point NaN NaN else Point (Fin w) (Fin 0))"
    and "cornerCalTransform w h tl tr br bl br =
           (if collinear p4 p2 p3 \<or> collinear p1 p4 p3 \<or> collinear p1 p2 p3 \<or> w = 0 \<or> h = 0
            then Point NaN NaN else Point (Fin w) (Fin h))"
    and "cornerCalTransform w h tl tr br bl bl =
           (if collinear p4 p2 p3 \<or> collinear p1 p4 p3 \<or> collinear p1 p2 p4 \<or> w = 0 \<or> h = 0
            then Point NaN NaN else Point (Fin 0) (Fin h))"
  unfolding cornerCalTransform_def matrix3d_def Let_def
  by (simp_all add: project_homogeneous [OF general2DProjection_apply(1) [unfolded Let_def]]
      project_homogeneous [OF general2DProjection_apply(2) [unfolded Let_def]]
      project_homogeneous [OF general2DProjection_apply(3) [unfolded Let_def]]
      project_homogeneous [OF general2DProjection_apply_4 [unfolded Let_def]]
      det3pts_rectangle collinear_det3pts p1_def p2_def p3_def p4_def)


lemma mercator_y_mono:
  assumes "validLat a" "validLat b" "lat a < lat b"
  shows "y_of (LatLonToMeters a) < y_of (LatLonToMeters b)"
proof -
  define u where "u = ((90 + lat a) * pi_180) / 2"
  define v where "v = ((90 + lat b) * pi_180) / 2"
  have p: "0 < pi_180" by (simp add: pi_180_def)
  have "0 < (90 + lat a) * pi_180"
    using assms(1) p by (simp add: validLat_def)
  then have u: "0 < u" by (simp add: u_def)
  have "(90 + lat a) * pi_180 < (90 + lat b) * pi_180"
    using assms(3) p by simp
  then have uv: "u < v" by (simp add: u_def v_def)
  have "(90 + lat b) * pi_180 < 180 * pi_180"
    using assms(2) p by (simp add: validLat_def)
  then have v: "v < pi / 2" by (simp add: v_def pi_180_def)
  have "0 < tan u" using u uv v by (intro tan_gt_zero) simp_all
  moreover have "tan u < tan v" using u uv v by (intro tan_monotone) simp_all
  ultimately have "ln (tan u) < ln (tan v)" by simp
  then show ?thesis
    by (simp add: LatLonToMeters_def u_def v_def rad_def)
qed




text \<open>
  Over exact arithmetic three collinear corners make the basis matrix singular, and the
  corners are mapped to \<open>(NaN, NaN)\<close> (lemma \<open>cornerCalTransform_corners\<close>). In the
  floating-point arithmetic of the code the rounded products rarely cancel, and the values
  at such corners are then some finite numbers. The case of two of the first three
  corners at one place does not depend on rounding: two columns of the basis matrix are
  equal, every entry of the adjugate of the source basis is a difference of two equal
  products, the matrix of the projection is zero, and \<open>project\<close> divides zero by zero.
\<close>

lemma coincident_corners:
  "cornerCalTransform w h p p c r q = Point NaN NaN"
  "cornerCalTransform w h c p p r q = Point NaN NaN"
  "cornerCalTransform w h p c p r q = Point NaN NaN"
  unfolding cornerCalTransform_def matrix3d_def general2DProjection_def Let_def
    basisToPoints_eq adj_multmm_diag
  by (simp_all add: det3pts_def project_def algebra_simps)

lemma coincident_collinear:
  "collinear p p c" "collinear c p p" "collinear p c p"
  by (simp_all add: collinear_def)







lemma example_corners_nondegenerate:
  "nondegenerate4 (LatLonToMeters (LatLon 60.1 24.9)) (LatLonToMeters (LatLon 60.1 25))
     (LatLonToMeters (LatLon 60 25)) (LatLonToMeters (LatLon 60 24.9))"
proof -
  define y1 where "y1 = y_of (LatLonToMeters (LatLon 60.1 24.9))"
  define y0 where "y0 = y_of (LatLonToMeters (LatLon 60 25))"
  have y: "y0 < y1"
    unfolding y0_def y1_def by (rule mercator_y_mono) (simp_all add: validLat_def)
  have k: "pi_180 \<noteq> 0" "rad \<noteq> 0" by (simp_all add: rad_def pi_180_def)
  have p: "LatLonToMeters (LatLon 60.1 24.9) = Point (24.9 * rad * pi_180) y1"
    "LatLonToMeters (LatLon 60.1 25) = Point (25 * rad * pi_180) y1"
    "LatLonToMeters (LatLon 60 25) = Point (25 * rad * pi_180) y0"
    "LatLonToMeters (LatLon 60 24.9) = Point (24.9 * rad * pi_180) y0"
    by (simp_all add: LatLonToMeters_def y1_def y0_def)
  have x: "25 * rad * pi_180 - 24.9 * rad * pi_180 = 0.1 * (rad * pi_180)"
    by simp
  show ?thesis
    unfolding p nondegenerate4_def collinear_def Point.sel
    using y k by (simp add: x)
qed

subsection \<open>C1: collinear control points\<close>

text \<open>
  Claim C1, as the code has it. \<open>cornerCalTransform\<close> has no failure path: it tests
  nothing and throws nothing, so a transform is returned for every calibration set, and a
  singular basis matrix is not detected. When two of the first three corners (top-left,
  top-right, bottom-right) are one place, so that these three control points are
  collinear and the basis matrix of \<open>basisToPoints\<close> is singular, the transform that is
  returned maps every coordinate to \<open>(NaN, NaN)\<close>, whatever the other corners and the
  size of the image are.
\<close>

theorem cornerCalTransform_collinear:
  assumes "topLeft = topRight \<or> topRight = bottomRight \<or> topLeft = bottomRight"
  shows "collinear (LatLonToMeters topLeft) (LatLonToMeters topRight) (LatLonToMeters bottomRight) \<and>
         cornerCalTransform w h topLeft topRight bottomRight bottomLeft q = Point NaN NaN"
  using assms by (auto simp: coincident_corners coincident_collinear)

text \<open>
  The corners of the specification's first example with the top-right corner put on the
  top-left one, and a point in the middle of the map.
\<close>

theorem cornerCalTransform_collinear_witness:
  "(LatLon 60.1 24.9 = LatLon 60.1 24.9 \<or> LatLon 60.1 24.9 = LatLon 60 25 \<or>
    LatLon 60.1 24.9 = LatLon 60 25) \<and>
   collinear (LatLonToMeters (LatLon 60.1 24.9)) (LatLonToMeters (LatLon 60.1 24.9))
     (LatLonToMeters (LatLon 60 25)) \<and>
   cornerCalTransform 1000 800 (LatLon 60.1 24.9) (LatLon 60.1 24.9) (LatLon 60 25)
     (LatLon 60 24.9) (LatLon 60.05 24.95) = Point NaN NaN"
  using cornerCalTransform_collinear [of "LatLon 60.1 24.9" "LatLon 60.1 24.9" "LatLon 60 25"
      1000 800 "LatLon 60 24.9" "LatLon 60.05 24.95"]
  by simp

text \<open>
  Claim C1 as stated says that no transform is returned for collinear control points. For
  four corners at one place, and for a top-right corner on the top-left one, a transform
  is returned, and its values are \<open>(NaN, NaN)\<close>.
\<close>

theorem cornerCalTransform_collinear_counterexample:
  "collinear (LatLonToMeters (LatLon 60 25)) (LatLonToMeters (LatLon 60 25))
     (LatLonToMeters (LatLon 60 25)) \<and>
   cornerCalTransform 1000 800 (LatLon 60 25) (LatLon 60 25) (LatLon 60 25) (LatLon 60 25)
     (LatLon 60 25) = Point NaN NaN \<and>
   collinear (LatLonToMeters (LatLon 60.1 24.9)) (LatLonToMeters (LatLon 60.1 24.9))
     (LatLonToMeters (LatLon 60 25)) \<and>
   cornerCalTransform 1000 800 (LatLon 60.1 24.9) (LatLon 60.1 24.9) (LatLon 60 25)
     (LatLon 60 24.9) (LatLon 60.1 24.9) = Point NaN NaN"
  by (simp add: coincident_corners coincident_collinear)

subsection \<open>C2: the control points are reproduced\<close>




section \<open>The downscale-and-retry recursion of drawTrackOnMap\<close>

text \<open>
  Facts about the bounds that the termination of the retry rests on: a value that is a
  real at least \<open>r\<close> or \<open>Infinity\<close>, and a value that is a real at most \<open>r\<close> or
  \<open>-Infinity\<close>.
\<close>

fun atLeastNum :: "real \<Rightarrow> jsnum \<Rightarrow> bool" where
  "atLeastNum r (Fin a) = (r \<le> a)"
| "atLeastNum r PInf = True"
| "atLeastNum r _ = False"

fun atMostNum :: "real \<Rightarrow> jsnum \<Rightarrow> bool" where
  "atMostNum r (Fin a) = (a \<le> r)"
| "atMostNum r NInf = True"
| "atMostNum r _ = False"

lemma atLeastNum_update:
  "atLeastNum r m \<Longrightarrow> atLeastNum r (if jgt v m then v else m)"
  by (cases m; cases v) (auto simp: jgt_def)

lemma atMostNum_update:
  "atMostNum r m \<Longrightarrow> atMostNum r (if jlt v m then v else m)"
  by (cases m; cases v) auto

lemma boundsLoop_inv:
  "atMostNum 0 (minX b) \<Longrightarrow> atLeastNum w (maxX b) \<Longrightarrow>
   atMostNum 0 (minY b) \<Longrightarrow> atLeastNum h (maxY b) \<Longrightarrow>
   atMostNum 0 (minX (boundsLoop transform tps b)) \<and>
   atLeastNum w (maxX (boundsLoop transform tps b)) \<and>
   atMostNum 0 (minY (boundsLoop transform tps b)) \<and>
   atLeastNum h (maxY (boundsLoop transform tps b))"
proof (induction tps arbitrary: b)
  case Nil
  then show ?case by simp
next
  case (Cons p ps)
  show ?case
    unfolding boundsLoop.simps Let_def
    by (rule Cons.IH) (simp_all add: Cons.prems atLeastNum_update atMostNum_update)
qed

lemma atLeastNum_ceil: "atLeastNum r v \<Longrightarrow> atLeastNum r (jceil v)"
  by (cases v) (auto intro: order_trans [OF _ le_of_int_ceiling])

lemma atMostNum_floor: "atMostNum r v \<Longrightarrow> atMostNum r (jfloor v)"
  by (cases v) (auto intro: order_trans [OF of_int_floor_le])

lemma atLeastNum_diff: "atLeastNum r hi \<Longrightarrow> atMostNum 0 lo \<Longrightarrow> atLeastNum r (jsub hi lo)"
  by (cases hi; cases lo) (auto simp: jsub_def)

lemma extractBounds_size:
  "atLeastNum (real (width img)) (jsub (maxX (extractBounds img cc tps)) (minX (extractBounds img cc tps)))"
  "atLeastNum (real (height img)) (jsub (maxY (extractBounds img cc tps)) (minY (extractBounds img cc tps)))"
proof -
  define b where "b = boundsLoop (imageTransform img cc) tps
                \<lparr>minX = Fin 0, maxX = Fin (real (width img)),
                 minY = Fin 0, maxY = Fin (real (height img))\<rparr>"
  have inv: "atMostNum 0 (minX b) \<and> atLeastNum (real (width img)) (maxX b) \<and>
        atMostNum 0 (minY b) \<and> atLeastNum (real (height img)) (maxY b)"
    unfolding b_def by (rule boundsLoop_inv) simp_all
  have e: "extractBounds img cc tps =
      \<lparr>minX = jfloor (minX b), maxX = jceil (maxX b), minY = jfloor (minY b), maxY = jceil (maxY b)\<rparr>"
    by (simp add: extractBounds_def Let_def b_def)
  show "atLeastNum (real (width img)) (jsub (maxX (extractBounds img cc tps)) (minX (extractBounds img cc tps)))"
    using inv by (simp add: e atLeastNum_diff atLeastNum_ceil atMostNum_floor)
  show "atLeastNum (real (height img)) (jsub (maxY (extractBounds img cc tps)) (minY (extractBounds img cc tps)))"
    using inv by (simp add: e atLeastNum_diff atLeastNum_ceil atMostNum_floor)
qed

lemma jmax_simps:
  "jmax (Fin a) (Fin b) = Fin (max a b)" "jmax (Fin a) PInf = PInf"
  "jmax PInf (Fin b) = PInf" "jmax PInf PInf = PInf"
  by (simp_all add: jmax_def max_def)

lemma jlt_NaN: "jlt v NaN = False" "jlt NaN v = False"
  by (cases v; simp)+

lemma retry_ratio:
  assumes "atLeastNum w mW" "atLeastNum h mH" "jgt mH MAX_SIZE \<or> jgt mW MAX_SIZE"
  shows "\<exists>q. jdiv MAX_SIZE (jmax mH mW) = Fin q \<and> 0 \<le> q \<and> q < 1 \<and> q * w \<le> 32767 \<and> q * h \<le> 32767"
proof -
  have "jmax mH mW = PInf \<or> (\<exists>m. jmax mH mW = Fin m \<and> 32767 < m \<and> w \<le> m \<and> h \<le> m)"
    using assms by (cases mH; cases mW) (auto simp: jmax_simps jgt_def MAX_SIZE_def)
  then consider (inf) "jmax mH mW = PInf"
    | (fin) m where "jmax mH mW = Fin m" "32767 < m" "w \<le> m" "h \<le> m"
    by blast
  then show ?thesis
  proof cases
    case inf
    then show ?thesis by (simp add: MAX_SIZE_def)
  next
    case fin
    have m: "0 < m" using fin(2) by simp
    have "32767 / m * w \<le> 32767" "32767 / m * h \<le> 32767"
      using fin m by (simp_all add: field_simps)
    then show ?thesis
      using fin m by (simp add: MAX_SIZE_def)
  qed
qed

lemma canvasDim_scaled:
  assumes "0 \<le> q" "q < 1"
  shows "canvasDim (jfloor (jmul (Fin (real n)) (Fin q))) \<le> n"
    and "0 < n \<Longrightarrow> canvasDim (jfloor (jmul (Fin (real n)) (Fin q))) < n"
proof -
  have "real n * q \<le> real n"
    using assms by (simp add: mult_left_le)
  then have "\<lfloor>real n * q\<rfloor> \<le> int n" by linarith
  then show "canvasDim (jfloor (jmul (Fin (real n)) (Fin q))) \<le> n" by simp
  show "canvasDim (jfloor (jmul (Fin (real n)) (Fin q))) < n" if "0 < n"
  proof -
    have "real n * q < real n" using assms that by simp
    then have "\<lfloor>real n * q\<rfloor> < int n" by linarith
    moreover have "0 \<le> \<lfloor>real n * q\<rfloor>" using assms by simp
    ultimately show ?thesis by (simp add: nat_less_iff)
  qed
qed

lemma zero_matrix_projection:
  "cornerCalTransform 0 0 a b c d p = Point NaN NaN"
proof -
  have z: "basisToPoints 0 0 0 0 0 0 0 0 = (0, 0, 0, 0, 0, 0, 0, 0, 0)"
    by (simp add: basisToPoints_def)
  have m: "multmm (0, 0, 0, 0, 0, 0, 0, 0, 0) s = (0, 0, 0, 0, 0, 0, 0, 0, 0)" for s
    by (rule mat3_cases [of s]) simp
  show ?thesis
    by (simp add: cornerCalTransform_def matrix3d_def general2DProjection_def Let_def z m project_def)
qed

lemma boundsLoop_NaN:
  "\<forall>p. transform p = Point NaN NaN \<Longrightarrow> boundsLoop transform tps b = b"
  by (induction tps arbitrary: b) (simp_all add: jgt_def jlt_NaN)

lemma extractBounds_empty_image:
  assumes "width img = 0" "height img = 0"
  shows "extractBounds img cc tps = \<lparr>minX = Fin 0, maxX = Fin 0, minY = Fin 0, maxY = Fin 0\<rparr>"
proof -
  have "\<forall>p. imageTransform img cc p = Point NaN NaN"
    using assms by (simp add: imageTransform_def zero_matrix_projection)
  then show ?thesis
    using assms by (simp add: extractBounds_def Let_def boundsLoop_NaN)
qed

lemma retry_shrinks:
  assumes "jgt (jsub (maxY (extractBounds img cc tps)) (minY (extractBounds img cc tps))) MAX_SIZE \<or>
           jgt (jsub (maxX (extractBounds img cc tps)) (minX (extractBounds img cc tps))) MAX_SIZE"
  shows "max (width (scaleImage img (jdiv MAX_SIZE
              (jmax (jsub (maxY (extractBounds img cc tps)) (minY (extractBounds img cc tps)))
                    (jsub (maxX (extractBounds img cc tps)) (minX (extractBounds img cc tps)))))))
             (height (scaleImage img (jdiv MAX_SIZE
              (jmax (jsub (maxY (extractBounds img cc tps)) (minY (extractBounds img cc tps)))
                    (jsub (maxX (extractBounds img cc tps)) (minX (extractBounds img cc tps)))))))
         < max (width img) (height img)"
proof -
  obtain q where q: "jdiv MAX_SIZE
              (jmax (jsub (maxY (extractBounds img cc tps)) (minY (extractBounds img cc tps)))
                    (jsub (maxX (extractBounds img cc tps)) (minX (extractBounds img cc tps)))) = Fin q"
      "0 \<le> q" "q < 1"
    using retry_ratio [OF extractBounds_size(1) extractBounds_size(2) assms] by blast
  have pos: "0 < width img \<or> 0 < height img"
  proof (rule ccontr)
    assume "\<not> (0 < width img \<or> 0 < height img)"
    then have "extractBounds img cc tps = \<lparr>minX = Fin 0, maxX = Fin 0, minY = Fin 0, maxY = Fin 0\<rparr>"
      by (simp add: extractBounds_empty_image)
    with assms show False by (simp add: jsub_def jgt_def MAX_SIZE_def)
  qed
  have w: "width (scaleImage img (Fin q)) \<le> width img"
    "0 < width img \<Longrightarrow> width (scaleImage img (Fin q)) < width img"
    using canvasDim_scaled [OF q(2,3)] by (simp_all add: scaleImage_def)
  have h: "height (scaleImage img (Fin q)) \<le> height img"
    "0 < height img \<Longrightarrow> height (scaleImage img (Fin q)) < height img"
    using canvasDim_scaled [OF q(2,3)] by (simp_all add: scaleImage_def)
  show ?thesis
    unfolding q(1) using pos w h by (cases "0 < width img"; cases "0 < height img") auto
qed

text \<open>
  \<open>drawTrackOnMap\<close>. When the bounds exceed 32767 in a dimension the image is scaled
  down and the function calls itself with the scaled image. The recursion terminates
  because the larger side of the image shrinks with every retry (lemma
  \<open>retry_shrinks\<close>): the function is total.
\<close>

function drawTrackOnMap ::
  "string set \<Rightarrow> nat list \<Rightarrow> Image \<Rightarrow> CornersCoordinates \<Rightarrow> TrackPoint list \<Rightarrow> string \<Rightarrow>
   bool \<Rightarrow> bool \<Rightarrow> Canvas completion" where
  "drawTrackOnMap timeZones palette img cornersCoordinates trackPoints timezoneName
                  includeHeader includeTrack =
     (let bounds = extractBounds img cornersCoordinates trackPoints;
          mWidth = jsub (maxX bounds) (minX bounds);
          mHeight = jsub (maxY bounds) (minY bounds)
      in if jgt mHeight MAX_SIZE \<or> jgt mWidth MAX_SIZE
         then (let scaledImg = scaleImage img (jdiv MAX_SIZE (jmax mHeight mWidth))
               in drawTrackOnMap timeZones palette scaledImg cornersCoordinates trackPoints
                    timezoneName includeHeader includeTrack)
         else renderTrackOnMap timeZones palette img cornersCoordinates trackPoints bounds
                timezoneName includeHeader includeTrack)"
  by pat_completeness auto
termination
proof (relation "measure (\<lambda>(timeZones, palette, img, cc, tps, tz, hdr, trk).
                   max (width img) (height img))")
  show "wf (measure (\<lambda>(timeZones, palette, img, cc, tps, tz, hdr, trk).
              max (width img) (height img)))"
    by simp
next
  fix timeZones :: "string set" and palette :: "nat list" and img cornersCoordinates trackPoints
    and timezoneName :: string and includeHeader includeTrack :: bool and x xa xb xc
  assume "x = extractBounds img cornersCoordinates trackPoints"
    "xa = jsub (maxX x) (minX x)" "xb = jsub (maxY x) (minY x)"
    "jgt xb MAX_SIZE \<or> jgt xa MAX_SIZE" "xc = scaleImage img (jdiv MAX_SIZE (jmax xb xa))"
  then show "((timeZones, palette, xc, cornersCoordinates, trackPoints, timezoneName,
           includeHeader, includeTrack),
          (timeZones, palette, img, cornersCoordinates, trackPoints, timezoneName,
           includeHeader, includeTrack))
         \<in> measure (\<lambda>(timeZones, palette, img, cc, tps, tz, hdr, trk).
                max (width img) (height img))"
    using retry_shrinks [of img cornersCoordinates trackPoints] by simp
qed

section \<open>Properties of the rendering\<close>

declare drawTrackOnMap.simps [simp del] coloredPathLoop.simps [simp del] tickLoop.simps [simp del]







lemma drawTrackOnMap_empty:
  "drawTrackOnMap timeZones palette img cc [] tz includeHeader True = Throw TypeError"
proof (induction timeZones palette img cc "[] :: TrackPoint list" tz includeHeader True
    rule: drawTrackOnMap.induct)
  case (1 timeZones palette img cc tz includeHeader)
  define b where "b = extractBounds img cc []"
  show ?case
  proof (cases "jgt (jsub (maxY b) (minY b)) MAX_SIZE \<or> jgt (jsub (maxX b) (minX b)) MAX_SIZE")
    case True
    then show ?thesis
      using "1.hyps" [OF b_def refl refl True refl]
      by (subst drawTrackOnMap.simps) (simp add: Let_def b_def [symmetric])
  next
    case False
    then show ?thesis
      by (subst drawTrackOnMap.simps)
         (simp add: Let_def b_def [symmetric] renderTrackOnMap_def drawColoredPath_def)
  qed
qed




lemma example_transform_corners:
  "imageTransform \<lparr>width = 1000, height = 800\<rparr> \<lparr>top_left = LatLon 60.1 24.9, top_right = LatLon 60.1 25,
       bottom_right = LatLon 60 25, bottom_left = LatLon 60 24.9\<rparr> (LatLon 60.1 24.9) = Point (Fin 0) (Fin 0)"
  "imageTransform \<lparr>width = 1000, height = 800\<rparr> \<lparr>top_left = LatLon 60.1 24.9, top_right = LatLon 60.1 25,
       bottom_right = LatLon 60 25, bottom_left = LatLon 60 24.9\<rparr> (LatLon 60 24.9) = Point (Fin 0) (Fin 800)"
  using example_corners_nondegenerate
  by (simp_all add: imageTransform_def cornerCalTransform_corners nondegenerate4_def)



lemma extractSpeed_one_point: "extractSpeed [p] = [Fin 1]"
  by (simp add: extractSpeed_def speedLoop.simps windowSpeed_def minIdx_def maxIdx_def
      slice_def distanceLoop.simps Let_def)


subsection \<open>C5: the size cap\<close>




subsection \<open>C7: tracks of fewer than two points\<close>

text \<open>
  Claim C7: for a track of fewer than two points, the empty track included,
  \<open>drawTrackOnMap\<close> still renders the image and does not abort. With the route drawn
  (\<open>includeTrack\<close>, the default) the empty track makes \<open>drawColoredPath\<close> read
  \<open>trackPoints[0].coordinates\<close>: the call throws a \<open>TypeError\<close>, for every image,
  calibration and header flag. The ticks and the header test \<open>trackPoints.length\<close>
  first; the colored path does not.
\<close>

theorem drawTrackOnMap_empty_track_throws:
  "drawTrackOnMap timeZones palette img cornersCoordinates [] timezoneName includeHeader True
     = Throw TypeError"
  by (rule drawTrackOnMap_empty)

subsection \<open>C8: segments shorter than a pixel\<close>

text \<open>
  Claim C8: a segment of the colored path is drawn exactly when its projected end points
  are at least one pixel apart. The code computes \<open>distanceY\<close> from the \<open>x\<close>
  coordinates, so the length it tests is \<open>sqrt 2\<close> times the horizontal distance from
  the last drawn point. On the 1000 x 800 image of the specification's first example, a
  track from the top-left corner to the bottom-left corner projects to \<open>(0, 0)\<close> and
  \<open>(0, 800)\<close>, 800 pixels apart, and no segment is drawn.
\<close>

theorem drawColoredPath_skips_vertical_segment:
  "imageTransform \<lparr>width = 1000, height = 800\<rparr> \<lparr>top_left = LatLon 60.1 24.9, top_right = LatLon 60.1 25,
       bottom_right = LatLon 60 25, bottom_left = LatLon 60 24.9\<rparr> (LatLon 60.1 24.9) = Point (Fin 0) (Fin 0) \<and>
   imageTransform \<lparr>width = 1000, height = 800\<rparr> \<lparr>top_left = LatLon 60.1 24.9, top_right = LatLon 60.1 25,
       bottom_right = LatLon 60 25, bottom_left = LatLon 60 24.9\<rparr> (LatLon 60 24.9) = Point (Fin 0) (Fin 800) \<and>
   drawColoredPath (imageTransform \<lparr>width = 1000, height = 800\<rparr> \<lparr>top_left = LatLon 60.1 24.9, top_right = LatLon 60.1 25,
       bottom_right = LatLon 60 25, bottom_left = LatLon 60 24.9\<rparr>) bounds getRGB speeds
     [\<lparr>time = 0, coordinates = (60.1, 24.9)\<rparr>, \<lparr>time = 10000, coordinates = (60, 24.9)\<rparr>]
     = Normal []"
  by (simp add: example_transform_corners drawColoredPath_def coloredPathLoop.simps toLatLon_def
      Let_def jsub_def jsquare_def)

section \<open>Properties of the file-name convention\<close>

declare matches.simps(3,6,8) [simp del]

lemma splits_iff: "(u, v) \<in> set (splits s) \<longleftrightarrow> u @ v = s"
proof (induction s arbitrary: u v)
  case Nil
  then show ?case by auto
next
  case (Cons x xs)
  show ?case
  proof (cases u)
    case Nil
    then show ?thesis by auto
  next
    case (Cons y ys)
    have "(y # ys, v) \<in> (\<lambda>(u, v). (x # u, v)) ` set (splits xs) \<longleftrightarrow> y = x \<and> (ys, v) \<in> set (splits xs)"
      by auto
    then show ?thesis
      using Cons Cons.IH [of ys v] by auto
  qed
qed

lemma list_ex_splits:
  "list_ex (\<lambda>(u, v). P u v) (splits s) \<longleftrightarrow> (\<exists>u v. s = u @ v \<and> P u v)"
proof -
  have "list_ex (\<lambda>(u, v). P u v) (splits s) \<longleftrightarrow> (\<exists>x \<in> set (splits s). P (fst x) (snd x))"
    unfolding list_ex_iff by (simp add: case_prod_unfold)
  also have "\<dots> \<longleftrightarrow> (\<exists>u v. (u, v) \<in> set (splits s) \<and> P u v)"
    by force
  also have "\<dots> \<longleftrightarrow> (\<exists>u v. s = u @ v \<and> P u v)"
    unfolding splits_iff by blast
  finally show ?thesis .
qed

lemma if_else_False: "(if A then B else False) \<longleftrightarrow> A \<and> B"
  by simp

lemma matches_Seq: "matches (Seq a b) s \<longleftrightarrow> (\<exists>u v. s = u @ v \<and> matches a u \<and> matches b v)"
  unfolding matches.simps(3) list_ex_splits if_else_False by (rule refl)

lemma matches_Rep_Suc:
  "matches (Rep (Suc n) a) s \<longleftrightarrow> (\<exists>u v. s = u @ v \<and> matches a u \<and> matches (Rep n a) v)"
  unfolding matches.simps(8) list_ex_splits if_else_False by (rule refl)

lemma matches_Plus:
  "matches (Plus a) s \<longleftrightarrow>
     (\<exists>u v. s = u @ v \<and> u \<noteq> [] \<and> matches a u \<and> (v = [] \<or> matches (Plus a) v))"
proof -
  have "matches (Plus a) s \<longleftrightarrow>
     (\<exists>u v. s = u @ v \<and> (u \<noteq> [] \<and> matches a u \<and> (if v = [] then True else matches (Plus a) v)))"
    by (subst matches.simps(6)) (simp only: list_ex_splits if_else_False)
  moreover have "(if v = [] then True else matches (Plus a) v) \<longleftrightarrow> (v = [] \<or> matches (Plus a) v)" for v
    by (simp only: if_bool_eq_disj) blast
  ultimately show ?thesis by (simp only:)
qed

lemma matches_Digit: "matches Digit s \<longleftrightarrow> (\<exists>d. s = [d] \<and> isDigit d)"
proof (cases s)
  case Nil
  then show ?thesis by simp
next
  case (Cons c cs)
  then show ?thesis by (cases cs) simp_all
qed

lemma matches_Opt: "matches (Opt a) s \<longleftrightarrow> s = [] \<or> matches a s"
  by simp

lemma matches_Alt: "matches (Alt a b) s \<longleftrightarrow> matches a s \<or> matches b s"
  by simp

lemma matches_digits: "matches (Plus Digit) s \<longleftrightarrow> s \<noteq> [] \<and> list_all isDigit s"
proof (induction s rule: length_induct)
  case (1 s)
  show ?case
  proof
    assume "matches (Plus Digit) s"
    then obtain u v where uv: "s = u @ v" "u \<noteq> []" "matches Digit u"
      "v = [] \<or> matches (Plus Digit) v"
      using matches_Plus [of Digit s] by blast
    then obtain d where d: "u = [d]" "isDigit d" using matches_Digit [of u] by blast
    have "length v < length s" using uv(1) d(1) by simp
    then have "matches (Plus Digit) v \<longleftrightarrow> v \<noteq> [] \<and> list_all isDigit v"
      using 1 by blast
    then have "list_all isDigit v" using uv(4) by auto
    then show "s \<noteq> [] \<and> list_all isDigit s"
      using uv(1) d by simp
  next
    assume a: "s \<noteq> [] \<and> list_all isDigit s"
    then obtain d t where s: "s = d # t" by (cases s) auto
    have "length t < length s" using s by simp
    then have "matches (Plus Digit) t \<longleftrightarrow> t \<noteq> [] \<and> list_all isDigit t"
      using 1 by blast
    then have t: "t = [] \<or> matches (Plus Digit) t" using a s by auto
    have d: "matches Digit [d]" using a s by (simp add: matches_Digit)
    have "s = [d] @ t \<and> [d] \<noteq> [] \<and> matches Digit [d] \<and> (t = [] \<or> matches (Plus Digit) t)"
      using s t d by simp
    then show "matches (Plus Digit) s"
      using matches_Plus [of Digit s] by blast
  qed
qed


lemma matches_Lit: "matches (Lit w) s \<longleftrightarrow> s = w"
  by simp

lemma sep_not_digit: "\<not> isDigit CHR ''_''" "\<not> isDigit CHR '',''"
  by (simp_all add: isDigit_def)

lemma digits_no_sep:
  assumes "list_all isDigit ds"
  shows "CHR ''_'' \<notin> set ds \<and> CHR '','' \<notin> set ds"
proof -
  have "\<forall>c \<in> set ds. isDigit c" using assms by (simp add: list_all_iff)
  then show ?thesis using sep_not_digit by blast
qed

lemma matches_number_chars:
  assumes "matches numberRe s"
  shows "s \<noteq> [] \<and> CHR ''_'' \<notin> set s \<and> CHR '','' \<notin> set s"
proof -
  obtain sign rest where 1: "s = sign @ rest" "matches (Opt (Lit ''-'')) sign"
    "matches (Seq (Plus Digit) (Opt (Seq (Lit ''.'') (Plus Digit)))) rest"
    using assms unfolding numberRe_def matches_Seq [of "Opt (Lit ''-'')"] by blast
  obtain ds frac where 2: "rest = ds @ frac" "matches (Plus Digit) ds"
    "matches (Opt (Seq (Lit ''.'') (Plus Digit))) frac"
    using 1(3) unfolding matches_Seq [of "Plus Digit"] by blast
  have sign: "sign = [] \<or> sign = ''-''" using 1(2) by (simp add: matches_Opt split: if_splits)
  have ds: "ds \<noteq> []" "list_all isDigit ds" using 2(2) by (simp_all add: matches_digits)
  have c: "CHR ''_'' \<notin> set frac \<and> CHR '','' \<notin> set frac"
  proof (cases "frac = []")
    case True
    then show ?thesis by simp
  next
    case False
    then have "matches (Seq (Lit ''.'') (Plus Digit)) frac"
      using 2(3) by (simp add: matches_Opt)
    then obtain fs where fs: "frac = ''.'' @ fs" "matches (Plus Digit) fs"
      unfolding matches_Seq [of "Lit ''.''"] matches_Lit by blast
    have "list_all isDigit fs" using fs(2) by (simp add: matches_digits)
    then have "CHR ''_'' \<notin> set fs \<and> CHR '','' \<notin> set fs" by (rule digits_no_sep)
    then show ?thesis by (simp add: fs(1))
  qed
  have a: "CHR ''_'' \<notin> set sign \<and> CHR '','' \<notin> set sign" using sign by auto
  have b: "CHR ''_'' \<notin> set ds \<and> CHR '','' \<notin> set ds"
    using ds(2) by (rule digits_no_sep)
  show ?thesis
    using a b c ds(1) by (simp add: 1(1) 2(1))
qed

lemma matches_extension:
  "matches extensionRe s \<longleftrightarrow> s \<in> set [''gif'', ''png'', ''jpg'', ''jpeg'', ''webp'']"
  unfolding extensionRe_def matches_Alt matches_Lit by auto

lemma matches_Rep_sep:
  "matches (Rep n (Seq (Lit sep) r)) s \<longleftrightarrow>
     (\<exists>ns. length ns = n \<and> list_all (matches r) ns \<and> s = concat (map (\<lambda>m. sep @ m) ns))"
proof (induction n arbitrary: s)
  case 0
  then show ?case by auto
next
  case (Suc n)
  show ?case
  proof
    assume "matches (Rep (Suc n) (Seq (Lit sep) r)) s"
    then obtain u v where uv: "s = u @ v" "matches (Seq (Lit sep) r) u"
      "matches (Rep n (Seq (Lit sep) r)) v"
      unfolding matches_Rep_Suc by blast
    obtain m where m: "u = sep @ m" "matches r m"
      using uv(2) unfolding matches_Seq matches_Lit by blast
    obtain ns where ns: "length ns = n" "list_all (matches r) ns"
      "v = concat (map (\<lambda>m. sep @ m) ns)"
      using uv(3) Suc.IH by blast
    have "length (m # ns) = Suc n \<and> list_all (matches r) (m # ns) \<and>
        s = concat (map (\<lambda>m. sep @ m) (m # ns))"
      using uv(1) m ns by simp
    then show "\<exists>ns. length ns = Suc n \<and> list_all (matches r) ns \<and>
        s = concat (map (\<lambda>m. sep @ m) ns)"
      by blast
  next
    assume "\<exists>ns. length ns = Suc n \<and> list_all (matches r) ns \<and>
        s = concat (map (\<lambda>m. sep @ m) ns)"
    then obtain ns where ns: "length ns = Suc n" "list_all (matches r) ns"
      "s = concat (map (\<lambda>m. sep @ m) ns)" by blast
    then obtain m ms where c: "ns = m # ms" by (cases ns) auto
    have 1: "matches (Seq (Lit sep) r) (sep @ m)"
      using ns(2) c unfolding matches_Seq matches_Lit by auto
    have 2: "matches (Rep n (Seq (Lit sep) r)) (concat (map (\<lambda>m. sep @ m) ms))"
      using ns(1,2) c Suc.IH by auto
    have "s = (sep @ m) @ concat (map (\<lambda>m. sep @ m) ms)"
      using ns(3) c by simp
    then show "matches (Rep (Suc n) (Seq (Lit sep) r)) s"
      using 1 2 unfolding matches_Rep_Suc by blast
  qed
qed

lemma matches_filenameRe:
  "matches filenameRe m \<longleftrightarrow>
     (\<exists>ns ext. length ns = 8 \<and> list_all (matches numberRe) ns \<and>
        ext \<in> set [''gif'', ''png'', ''jpg'', ''jpeg'', ''webp''] \<and>
        m = concat (map (\<lambda>n. ''_'' @ n) ns) @ ''_.'' @ ext)"
  unfolding filenameRe_def matches_Seq matches_Rep_sep matches_Lit matches_extension
  by blast

lemma join_concat: "join sep (n # ns) = n @ concat (map (\<lambda>m. sep @ m) ns)"
  by (induction ns arbitrary: n) simp_all

lemma matches_calibStringRe:
  "matches calibStringRe s \<longleftrightarrow>
     (\<exists>ns. length ns = 8 \<and> list_all (matches numberRe) ns \<and> s = join '','' ns)"
proof
  assume "matches calibStringRe s"
  then obtain n ms where 1: "matches numberRe n" "length ms = 7" "list_all (matches numberRe) ms"
    "s = n @ concat (map (\<lambda>m. '','' @ m) ms)"
    unfolding calibStringRe_def matches_Seq matches_Rep_sep by blast
  then have "length (n # ms) = 8 \<and> list_all (matches numberRe) (n # ms) \<and> s = join '','' (n # ms)"
    by (simp add: join_concat)
  then show "\<exists>ns. length ns = 8 \<and> list_all (matches numberRe) ns \<and> s = join '','' ns"
    by blast
next
  assume "\<exists>ns. length ns = 8 \<and> list_all (matches numberRe) ns \<and> s = join '','' ns"
  then obtain ns where ns: "length ns = 8" "list_all (matches numberRe) ns" "s = join '','' ns"
    by blast
  then obtain n ms where c: "ns = n # ms" by (cases ns) auto
  have "matches numberRe n \<and> length ms = 7 \<and> list_all (matches numberRe) ms \<and>
      s = n @ concat (map (\<lambda>m. '','' @ m) ms)"
    using ns c by (simp add: join_concat)
  then show "matches calibStringRe s"
    unfolding calibStringRe_def matches_Seq matches_Rep_sep by blast
qed


lemma split_nonempty: "split sep s \<noteq> []"
  by (induction s) (auto split: list.splits)

lemma split_no_sep: "sep \<notin> set w \<Longrightarrow> split sep w = [w]"
  by (induction w) auto

lemma split_at_sep: "sep \<notin> set w \<Longrightarrow> split sep (w @ sep # r) = w # split sep r"
  by (induction w) auto

lemma split_groups:
  assumes "\<forall>n \<in> set ns. sep \<notin> set n" "sep \<notin> set t"
  shows "split sep (concat (map (\<lambda>n. sep # n) ns) @ sep # t) = [] # ns @ [t]"
  using assms(1)
proof (induction ns)
  case Nil
  then show ?case using assms(2) by (simp add: split_no_sep)
next
  case (Cons n ns)
  have IH: "split sep (concat (map (\<lambda>n. sep # n) ns) @ sep # t) = [] # ns @ [t]"
    using Cons by simp
  obtain z where z: "concat (map (\<lambda>n. sep # n) ns) @ sep # t = sep # z"
    by (cases ns) auto
  have "split sep (sep # z) = [] # split sep z" by simp
  then have tail: "split sep z = ns @ [t]" using IH z by simp
  have "split sep (n @ sep # z) = n # split sep z"
    using Cons.prems by (intro split_at_sep) simp
  then show ?case
    using z tail by simp
qed

lemma matchToEnd_suffix:
  "matchToEnd r s = Some m \<Longrightarrow> \<exists>pre. s = pre @ m \<and> matches r m"
proof (induction s)
  case Nil
  then show ?case by (auto split: if_splits)
next
  case (Cons c cs)
  show ?case
  proof (cases "matches r (c # cs)")
    case True
    then show ?thesis using Cons.prems by auto
  next
    case False
    then obtain pre where "cs = pre @ m \<and> matches r m"
      using Cons by auto
    then have "c # cs = (c # pre) @ m \<and> matches r m" by simp
    then show ?thesis by blast
  qed
qed

lemma matchToEnd_first:
  assumes "matches r m" "\<forall>u. u \<noteq> [] \<longrightarrow> \<not> matches r (u @ m)"
  shows "matchToEnd r (pre @ m) = Some m"
proof (induction pre)
  case Nil
  then show ?case using assms(1) by (cases m) simp_all
next
  case (Cons c cs)
  have "\<not> matches r ((c # cs) @ m)" using assms(2) by blast
  then show ?case using Cons by simp
qed

lemma matchToEnd_None:
  "matchToEnd r s = None \<longleftrightarrow> (\<forall>pre m. s = pre @ m \<longrightarrow> \<not> matches r m)"
proof (induction s)
  case Nil
  then show ?case by auto
next
  case (Cons c cs)
  show ?case
  proof (cases "matches r (c # cs)")
    case True
    then show ?thesis by (auto intro: exI [of _ "[]"])
  next
    case False
    have "(\<forall>pre m. c # cs = pre @ m \<longrightarrow> \<not> matches r m) \<longleftrightarrow>
          (\<forall>pre m. cs = pre @ m \<longrightarrow> \<not> matches r m)"
    proof
      assume a: "\<forall>pre m. c # cs = pre @ m \<longrightarrow> \<not> matches r m"
      show "\<forall>pre m. cs = pre @ m \<longrightarrow> \<not> matches r m"
      proof (intro allI impI)
        fix pre m assume "cs = pre @ m"
        then have "c # cs = (c # pre) @ m" by simp
        then show "\<not> matches r m" using a by blast
      qed
    next
      assume a: "\<forall>pre m. cs = pre @ m \<longrightarrow> \<not> matches r m"
      show "\<forall>pre m. c # cs = pre @ m \<longrightarrow> \<not> matches r m"
      proof (intro allI impI)
        fix pre m assume h: "c # cs = pre @ m"
        show "\<not> matches r m"
        proof (cases pre)
          case Nil
          then show ?thesis using h False by simp
        next
          case (Cons p ps)
          then have "cs = ps @ m" using h by simp
          then show ?thesis using a by blast
        qed
      qed
    qed
    then show ?thesis using False Cons.IH by simp
  qed
qed

text \<open>A string that the pattern of the file name matches has nine underscores and starts
  with one, so no longer string ending in it is matched.\<close>

lemma filename_match_shape:
  assumes "matches filenameRe m"
  shows "length (filter (\<lambda>c. c = CHR ''_'') m) = 9 \<and> (\<exists>z. m = CHR ''_'' # z)"
proof -
  obtain ns ext where h: "length ns = 8" "list_all (matches numberRe) ns"
    "ext \<in> set [''gif'', ''png'', ''jpg'', ''jpeg'', ''webp'']"
    "m = concat (map (\<lambda>n. ''_'' @ n) ns) @ ''_.'' @ ext"
    using assms unfolding matches_filenameRe by blast
  have nosep: "\<forall>n \<in> set ns. filter (\<lambda>c. c = CHR ''_'') n = []"
    using h(2) matches_number_chars by (auto simp: list_all_iff filter_empty_conv)
  have "filter (\<lambda>c. c = CHR ''_'') (concat (map (\<lambda>n. ''_'' @ n) ns)) = replicate (length ns) CHR ''_''"
    using nosep by (induction ns) simp_all
  moreover have "filter (\<lambda>c. c = CHR ''_'') ext = []"
    using h(3) by auto
  ultimately have "length (filter (\<lambda>c. c = CHR ''_'') m) = 9"
    by (simp add: h(1,4))
  moreover have "\<exists>z. m = CHR ''_'' # z"
    using h(1,4) by (cases ns) auto
  ultimately show ?thesis by blast
qed

lemma filename_match_longest:
  assumes "matches filenameRe m" "u \<noteq> []"
  shows "\<not> matches filenameRe (u @ m)"
proof
  assume a: "matches filenameRe (u @ m)"
  have "length (filter (\<lambda>c. c = CHR ''_'') (u @ m)) = 9" "length (filter (\<lambda>c. c = CHR ''_'') m) = 9"
    using filename_match_shape [OF a] filename_match_shape [OF assms(1)] by simp_all
  then have 0: "filter (\<lambda>c. c = CHR ''_'') u = []" by simp
  obtain z where "u @ m = CHR ''_'' # z" using filename_match_shape [OF a] by blast
  then obtain u' where "u = CHR ''_'' # u'" using assms(2) by (cases u) auto
  then show False using 0 by simp
qed


lemma conventional_match:
  assumes "conventional pre ns ext filename"
  shows "matchToEnd filenameRe filename = Some (concat (map (\<lambda>n. ''_'' @ n) ns) @ ''_.'' @ ext)"
proof -
  define m where "m = concat (map (\<lambda>n. ''_'' @ n) ns) @ ''_.'' @ ext"
  have "matches filenameRe m"
    using assms unfolding matches_filenameRe conventional_def m_def by blast
  then have "matchToEnd filenameRe (pre @ m) = Some m"
    by (intro matchToEnd_first) (auto simp: filename_match_longest)
  then show ?thesis
    using assms by (simp add: conventional_def m_def)
qed

lemma extract_conventional:
  assumes "conventional pre ns ext filename"
  shows "extractCornersCoordsFromFilename filename = Some (join '','' ns)"
proof -
  have nosep: "\<forall>n \<in> set ns. CHR ''_'' \<notin> set n"
    using assms matches_number_chars by (auto simp: conventional_def list_all_iff)
  have e: "CHR ''_'' \<notin> set (CHR ''.'' # ext)"
    using assms by (auto simp: conventional_def)
  have "split CHR ''_'' (concat (map (\<lambda>n. CHR ''_'' # n) ns) @ CHR ''_'' # (CHR ''.'' # ext))
      = [] # ns @ [CHR ''.'' # ext]"
    using nosep e by (rule split_groups)
  then have "tl (butlast (split CHR ''_'' (concat (map (\<lambda>n. ''_'' @ n) ns) @ ''_.'' @ ext))) = ns"
    by (simp add: butlast_append)
  then show ?thesis
    using conventional_match [OF assms]
    by (simp add: extractCornersCoordsFromFilename_def Let_def)
qed

lemma extract_Some:
  assumes "extractCornersCoordsFromFilename filename = Some s"
  shows "\<exists>pre ns ext. conventional pre ns ext filename \<and> s = join '','' ns"
proof -
  obtain m where m: "matchToEnd filenameRe filename = Some m"
    using assms by (auto simp: extractCornersCoordsFromFilename_def split: option.splits)
  obtain pre where pre: "filename = pre @ m" "matches filenameRe m"
    using matchToEnd_suffix [OF m] by blast
  obtain ns ext where "length ns = 8" "list_all (matches numberRe) ns"
    "ext \<in> set [''gif'', ''png'', ''jpg'', ''jpeg'', ''webp'']"
    "m = concat (map (\<lambda>n. ''_'' @ n) ns) @ ''_.'' @ ext"
    using pre(2) unfolding matches_filenameRe by blast
  then have c: "conventional pre ns ext filename"
    using pre(1) by (simp add: conventional_def)
  then have "s = join '','' ns"
    using extract_conventional [OF c] assms by simp
  with c show ?thesis by blast
qed

lemma conventional_valid:
  "conventional pre ns ext filename \<Longrightarrow> isValidCalibString (join '','' ns)"
  unfolding isValidCalibString_def matches_calibStringRe conventional_def by blast

lemma conventional_ending:
  "conventional pre ns ext filename \<Longrightarrow>
     \<exists>y. filename = y @ ''_.gif'' \<or> filename = y @ ''_.png'' \<or> filename = y @ ''_.jpg'' \<or>
         filename = y @ ''_.jpeg'' \<or> filename = y @ ''_.webp''"
proof -
  assume c: "conventional pre ns ext filename"
  then have f: "filename = (pre @ concat (map (\<lambda>n. ''_'' @ n) ns)) @ ''_.'' @ ext"
    by (simp add: conventional_def)
  have "ext = ''gif'' \<or> ext = ''png'' \<or> ext = ''jpg'' \<or> ext = ''jpeg'' \<or> ext = ''webp''"
    using c by (simp add: conventional_def)
  then show ?thesis using f by (intro exI [of _ "pre @ concat (map (\<lambda>n. ''_'' @ n) ns)"]) auto
qed

lemma ends_with: "f = y @ w \<Longrightarrow> drop (length f - length w) f = w"
  by simp

lemma example_numbers:
  "list_all (matches numberRe) [''60.1'', ''24.9'', ''60.1'', ''25'', ''60'', ''25'', ''60'', ''24.9'']"
  "list_all (matches numberRe) [''10'', ''20'', ''30'', ''40'', ''50'', ''60'', ''70'', ''80'']"
  by (simp_all add: numberRe_def isDigit_def matches.simps)

lemma no_underscore_not_conventional:
  "CHR ''_'' \<notin> set filename \<Longrightarrow> \<not> conventional pre ns ext filename"
  by (auto simp: conventional_def)

subsection \<open>C9: calibration strings embedded in file names\<close>

text \<open>
  Claim C9, as the code has it. A file name that ends with eight groups of an underscore
  and a signed decimal number, then one more underscore, a dot and one of the extensions
  gif, png, jpg, jpeg and webp, yields the eight numbers joined by commas, and
  \<open>isValidCalibString\<close> accepts that string; every string that
  \<open>extractCornersCoordsFromFilename\<close> returns is accepted by \<open>isValidCalibString\<close>;
  and a file name that does not have this form yields \<open>false\<close>.
\<close>

theorem extractCornersCoordsFromFilename_convention:
  "(conventional pre ns ext filename \<longrightarrow>
      extractCornersCoordsFromFilename filename = Some (join '','' ns) \<and>
      isValidCalibString (join '','' ns)) \<and>
   (\<forall>s. extractCornersCoordsFromFilename filename = Some s \<longrightarrow> isValidCalibString s) \<and>
   ((\<forall>pre ns ext. \<not> conventional pre ns ext filename) \<longrightarrow>
      extractCornersCoordsFromFilename filename = None)"
proof (intro conjI impI allI)
  assume c: "conventional pre ns ext filename"
  show "extractCornersCoordsFromFilename filename = Some (join '','' ns)"
    using c by (rule extract_conventional)
  show "isValidCalibString (join '','' ns)"
    using c by (rule conventional_valid)
next
  fix s assume "extractCornersCoordsFromFilename filename = Some s"
  then show "isValidCalibString s"
    using extract_Some conventional_valid by blast
next
  assume n: "\<forall>pre ns ext. \<not> conventional pre ns ext filename"
  show "extractCornersCoordsFromFilename filename = None"
  proof (cases "extractCornersCoordsFromFilename filename")
    case None
    then show ?thesis .
  next
    case (Some s)
    then show ?thesis using extract_Some n by blast
  qed
qed

text \<open>A file name of the convention, and one without an underscore.\<close>

theorem extractCornersCoordsFromFilename_convention_witness:
  "conventional ''map'' [''60.1'', ''24.9'', ''60.1'', ''25'', ''60'', ''25'', ''60'', ''24.9''] ''png''
     ''map_60.1_24.9_60.1_25_60_25_60_24.9_.png'' \<and>
   extractCornersCoordsFromFilename ''map_60.1_24.9_60.1_25_60_25_60_24.9_.png''
     = Some ''60.1,24.9,60.1,25,60,25,60,24.9'' \<and>
   isValidCalibString ''60.1,24.9,60.1,25,60,25,60,24.9'' \<and>
   extractCornersCoordsFromFilename ''map.png'' = None"
proof -
  have c: "conventional ''map'' [''60.1'', ''24.9'', ''60.1'', ''25'', ''60'', ''25'', ''60'', ''24.9''] ''png''
     ''map_60.1_24.9_60.1_25_60_25_60_24.9_.png''"
    using example_numbers(1) by (simp add: conventional_def)
  have n: "\<forall>pre ns ext. \<not> conventional pre ns ext ''map.png''"
    by (intro allI no_underscore_not_conventional) simp
  show ?thesis
    using extractCornersCoordsFromFilename_convention
      [of "''map''" "[''60.1'', ''24.9'', ''60.1'', ''25'', ''60'', ''25'', ''60'', ''24.9'']" "''png''"
          "''map_60.1_24.9_60.1_25_60_25_60_24.9_.png''"]
      extractCornersCoordsFromFilename_convention [where filename = "''map.png''"] c n
    by simp
qed

text \<open>
  Claim C9 as stated asks for eight underscore-separated numbers before the extension.
  The name \<open>map_10_20_30_40_50_60_70_80.png\<close> has them, but the pattern also wants an
  underscore between the last number and the dot: the code returns \<open>false\<close>.
\<close>

theorem extractCornersCoordsFromFilename_counterexample:
  "list_all (matches numberRe) [''10'', ''20'', ''30'', ''40'', ''50'', ''60'', ''70'', ''80''] \<and>
   ''map_10_20_30_40_50_60_70_80.png'' =
     ''map_'' @ join ''_'' [''10'', ''20'', ''30'', ''40'', ''50'', ''60'', ''70'', ''80''] @ ''.'' @ ''png'' \<and>
   extractCornersCoordsFromFilename ''map_10_20_30_40_50_60_70_80.png'' = None"
proof -
  have "extractCornersCoordsFromFilename ''map_10_20_30_40_50_60_70_80.png'' = None"
  proof (cases "extractCornersCoordsFromFilename ''map_10_20_30_40_50_60_70_80.png''")
    case None
    then show ?thesis .
  next
    case (Some s)
    then obtain pre ns ext where "conventional pre ns ext ''map_10_20_30_40_50_60_70_80.png''"
      using extract_Some by blast
    then obtain y where
      "''map_10_20_30_40_50_60_70_80.png'' = y @ ''_.gif'' \<or> ''map_10_20_30_40_50_60_70_80.png'' = y @ ''_.png'' \<or>
       ''map_10_20_30_40_50_60_70_80.png'' = y @ ''_.jpg'' \<or> ''map_10_20_30_40_50_60_70_80.png'' = y @ ''_.jpeg'' \<or>
       ''map_10_20_30_40_50_60_70_80.png'' = y @ ''_.webp''"
      using conventional_ending by blast
    then have False
      by (auto dest!: ends_with)
    then show ?thesis ..
  qed
  then show ?thesis
    using example_numbers(2) by simp
qed

end
